theory Spec2Isabelle
  imports Main "HOL-Library.Char_ord" "HOL-Library.Sublist" "HOL-Library.AList"
begin

section \<open>Python values used by the name generator\<close>

text \<open>
  Python strings are modelled as \<^typ>\<open>string\<close>, one \<^typ>\<open>char\<close> per ASCII code
  point; the order of \<^theory_text>\<open>Char_ord\<close> is the order of the code points, which is
  what \<^verbatim>\<open>sorted\<close> uses on one-character strings.  An optional argument
  (\<^verbatim>\<open>None\<close> or a string) is a \<^typ>\<open>string option\<close>.
\<close>

datatype error =
    ValueError string
  | IndexError
  | OSError string

text \<open>
  A Python generator that has run to its end: the items it yielded, in order, and the
  exception that ended it (\<open>None\<close> when it was simply exhausted).
\<close>

type_synonym 'a gen = "'a list \<times> error option"

text \<open>Truthiness of an optional string: \<^verbatim>\<open>None\<close> and \<^verbatim>\<open>""\<close> are false.\<close>

fun truthy :: "string option \<Rightarrow> bool" where
  "truthy None = False"
| "truthy (Some s) = (s \<noteq> [])"

text \<open>\<^verbatim>\<open>str.lower\<close> on ASCII text: \<^verbatim>\<open>A\<close>..\<^verbatim>\<open>Z\<close> move up by 32.\<close>

definition lower_char :: "char \<Rightarrow> char" where
  "lower_char c =
     (if CHR ''A'' \<le> c \<and> c \<le> CHR ''Z'' then char_of (of_char c + (32::nat)) else c)"

definition lower :: "string \<Rightarrow> string" where
  "lower s = map lower_char s"

definition ascii_lowercase :: string where
  "ascii_lowercase = ''abcdefghijklmnopqrstuvwxyz''"

text \<open>\<^verbatim>\<open>"".join(sorted(set(s)))\<close>: the distinct characters of \<open>s\<close>, ascending.\<close>

definition sorted_set :: "string \<Rightarrow> string" where
  "sorted_set s = sort (remdups s)"

text \<open>\<^verbatim>\<open>name[i]\<close> for a non-negative index; out of range raises.\<close>

definition py_index :: "string \<Rightarrow> nat \<Rightarrow> error + char" where
  "py_index s i = (if i < length s then Inr (s ! i) else Inl IndexError)"

section \<open>Generator\<close>

record generator =
  vowels :: string
  consonants :: string
  first :: "string option"

text \<open>\<^verbatim>\<open>CVCVGenerator.__init__\<close> of gename.py.\<close>

definition CVCVGenerator_init ::
  "string option \<Rightarrow> string option \<Rightarrow> string option \<Rightarrow> string option \<Rightarrow> bool
     \<Rightarrow> string option \<Rightarrow> generator" where
  "CVCVGenerator_init vowels_arg consonants_arg add_vowels add_consonants include_y first_arg =
     (let default_vowels = ''aeiou'';
          default_vowels = (if include_y then default_vowels @ ''y'' else default_vowels);
          base_vowels = (if truthy vowels_arg then the vowels_arg else default_vowels);
          base_vowels = (if truthy add_vowels then base_vowels @ the add_vowels
                         else base_vowels);
          self_vowels = sorted_set (lower base_vowels);
          base_consonants =
            (if truthy consonants_arg then the consonants_arg
             else filter (\<lambda>c. \<not> sublist [c] self_vowels) ascii_lowercase);
          base_consonants = (if truthy add_consonants then base_consonants @ the add_consonants
                             else base_consonants);
          self_consonants = sorted_set (lower base_consonants)
      in \<lparr> vowels = self_vowels,
           consonants = self_consonants,
           first = (if truthy first_arg then Some (lower (the first_arg)) else None) \<rparr>)"

text \<open>
  \<^verbatim>\<open>itertools.product\<close>, as its documentation defines it: the pools are folded from
  the left, every partial tuple being extended by every element of the next pool.
\<close>

definition itertools_product :: "'a list list \<Rightarrow> 'a list list" where
  "itertools_product pools =
     foldl (\<lambda>result pool. concat (map (\<lambda>x. map (\<lambda>y. x @ [y]) pool) result)) [ [] ] pools"

text \<open>
  The loop \<^verbatim>\<open>for c1, v1, c2, v2 in product(...): yield c1 + v1 + c2 + v2\<close>; a tuple
  that is not of length four makes the unpacking raise.
\<close>

fun generate_loop :: "char list list \<Rightarrow> string gen" where
  "generate_loop [] = ([], None)"
| "generate_loop (t # ts) =
     (case t of
        [c1, v1, c2, v2] \<Rightarrow>
          (case generate_loop ts of (ys, r) \<Rightarrow> (([c1] @ [v1] @ [c2] @ [v2]) # ys, r))
      | _ \<Rightarrow> ([], Some (ValueError ''wrong number of values to unpack'')))"

definition first_letter_message :: "string \<Rightarrow> string" where
  "first_letter_message f =
     ''First letter '' @ [CHR 0x27] @ f @ [CHR 0x27] @ '' must exist in consonant set.''"

definition generate :: "generator \<Rightarrow> string gen" where
  "generate self =
     (if truthy (first self) then
        (if \<not> sublist (the (first self)) (consonants self)
         then ([], Some (ValueError (first_letter_message (the (first self)))))
         else generate_loop
                (itertools_product
                   [the (first self), vowels self, consonants self, vowels self]))
      else generate_loop
             (itertools_product
                [consonants self, vowels self, consonants self, vowels self]))"

section \<open>Filters\<close>

datatype name_filter =
    NoFilter
  | OnlyRepeatingVowels
  | OnlyRepeatingConsonants
  | OnlyRepeatingBoth

text \<open>\<^verbatim>\<open>a[i] == a[j]\<close>, the left index read first.\<close>

definition index_eq :: "string \<Rightarrow> nat \<Rightarrow> nat \<Rightarrow> error + bool" where
  "index_eq name i j =
     (case py_index name i of
        Inl e \<Rightarrow> Inl e
      | Inr a \<Rightarrow> (case py_index name j of Inl e \<Rightarrow> Inl e | Inr b \<Rightarrow> Inr (a = b)))"

fun apply_filter :: "name_filter \<Rightarrow> string \<Rightarrow> error + bool" where
  "apply_filter NoFilter name = Inr True"
| "apply_filter OnlyRepeatingVowels name = index_eq name 1 3"
| "apply_filter OnlyRepeatingConsonants name = index_eq name 0 2"
| "apply_filter OnlyRepeatingBoth name =
     (case index_eq name 0 2 of
        Inl e \<Rightarrow> Inl e
      | Inr b \<Rightarrow> (if b then index_eq name 1 3 else Inr False))"

text \<open>\<^verbatim>\<open>get_filter\<close>: a dictionary lookup with \<^verbatim>\<open>NoFilter()\<close> as the default.\<close>

definition filters :: "(string \<times> name_filter) list" where
  "filters =
     [(''none'', NoFilter),
      (''repeat_vowels'', OnlyRepeatingVowels),
      (''repeat_consonants'', OnlyRepeatingConsonants),
      (''repeat_both'', OnlyRepeatingBoth)]"

definition get_filter :: "string \<Rightarrow> name_filter" where
  "get_filter filter_type =
     (case map_of filters filter_type of Some f \<Rightarrow> f | None \<Rightarrow> NoFilter)"

section \<open>Engine\<close>

record engine =
  generator :: generator
  name_filter :: name_filter
  suffix :: string

definition NameEngine :: "generator \<Rightarrow> name_filter \<Rightarrow> string \<Rightarrow> engine" where
  "NameEngine g f s = \<lparr> generator = g, name_filter = f, suffix = s \<rparr>"

text \<open>
  The body of \<^verbatim>\<open>run\<close> over the names the inner generator yields; \<open>r\<close> is the
  exception (if any) with which the inner generator ends after them.
\<close>

fun run_loop :: "name_filter \<Rightarrow> string \<Rightarrow> string list \<Rightarrow> error option \<Rightarrow> string gen" where
  "run_loop f suf [] r = ([], r)"
| "run_loop f suf (name # names) r =
     (case apply_filter f name of
        Inl e \<Rightarrow> ([], Some e)
      | Inr b \<Rightarrow>
          (case run_loop f suf names r of
             (ys, r') \<Rightarrow> ((if b then [name @ suf] else []) @ ys, r')))"

definition run :: "engine \<Rightarrow> string gen" where
  "run self =
     (case generate (generator self) of
        (names, r) \<Rightarrow> run_loop (name_filter self) (suffix self) names r)"

section \<open>Files and standard output\<close>

text \<open>
  The part of the outside world that \<^verbatim>\<open>export_grouped\<close> touches: the directories
  that exist, the regular files with their contents (one entry per path), and the lines
  printed so far.  A path is the POSIX path string the program passes to the operating
  system; a directory is recorded without trailing slashes, and different spellings of
  one path (\<^verbatim>\<open>.\<close>, \<^verbatim>\<open>..\<close>, doubled slashes inside it) are not identified.  A call
  fails with \<^verbatim>\<open>OSError\<close> exactly when the entries at the paths it touches have the
  wrong kind; permissions and a full disk are outside the model.
\<close>

record world =
  dirs :: "string list"
  files :: "(string \<times> string) list"
  stdout :: "string list"

definition rstrip_sep :: "string \<Rightarrow> string" where
  "rstrip_sep p = rev (dropWhile (\<lambda>c. c = CHR ''/'') (rev p))"

definition os_path_join :: "string \<Rightarrow> string \<Rightarrow> string" where
  "os_path_join a b =
     (if prefix ''/'' b then b
      else if a = [] \<or> Sublist.suffix ''/'' a then a @ b
      else a @ ''/'' @ b)"

definition os_path_basename :: "string \<Rightarrow> string" where
  "os_path_basename p = rev (takeWhile (\<lambda>c. c \<noteq> CHR ''/'') (rev p))"

text \<open>
  \<^verbatim>\<open>os.path.dirname\<close>: everything up to the last slash, without its trailing slashes
  unless it consists of slashes only.
\<close>

definition os_path_dirname :: "string \<Rightarrow> string" where
  "os_path_dirname p =
     (let head = rev (dropWhile (\<lambda>c. c \<noteq> CHR ''/'') (rev p))
      in if rstrip_sep head = [] then head else rstrip_sep head)"

text \<open>
  A path of slashes only is the root; it, \<^verbatim>\<open>.\<close> and \<^verbatim>\<open>..\<close> always exist.
\<close>

definition os_path_isdir :: "string \<Rightarrow> world \<Rightarrow> bool" where
  "os_path_isdir p w =
     (p \<noteq> [] \<and>
      (rstrip_sep p = [] \<or> rstrip_sep p = ''.'' \<or> rstrip_sep p = ''..''
       \<or> rstrip_sep p \<in> set (dirs w)))"

definition os_path_isfile :: "string \<Rightarrow> world \<Rightarrow> bool" where
  "os_path_isfile p w = (p \<in> set (map fst (files w)))"

definition os_path_exists :: "string \<Rightarrow> world \<Rightarrow> bool" where
  "os_path_exists p w = (os_path_isdir p w \<or> os_path_isfile p w)"

text \<open>
  The directory a path names and the directories above it, outermost first:
  \<^verbatim>\<open>a/b/c\<close> gives \<^verbatim>\<open>a\<close>, \<^verbatim>\<open>a/b\<close>, \<^verbatim>\<open>a/b/c\<close>.
\<close>

definition path_chain :: "string \<Rightarrow> string list" where
  "path_chain p =
     (let q = rstrip_sep p
      in map (\<lambda>i. take i q)
           (filter (\<lambda>i. (i = length q \<or> q ! i = CHR ''/'') \<and> q ! (i - 1) \<noteq> CHR ''/'')
              [1..<Suc (length q)]))"

text \<open>
  \<^verbatim>\<open>os.makedirs(folder, exist_ok=True)\<close>: creates the folder and every missing
  directory above it; it fails on the empty path and when the folder or a directory
  above it is an existing regular file.
\<close>

definition os_makedirs :: "string \<Rightarrow> world \<Rightarrow> error + world" where
  "os_makedirs folder w =
     (if folder = [] \<or> list_ex (\<lambda>d. os_path_isfile d w) (path_chain folder)
      then Inl (OSError folder)
      else Inr (w\<lparr>dirs := dirs w @ filter (\<lambda>d. \<not> os_path_isdir d w) (path_chain folder)\<rparr>))"

text \<open>\<^verbatim>\<open>os.remove\<close> removes a regular file; a directory or a missing path makes it fail.\<close>

definition os_remove :: "string \<Rightarrow> world \<Rightarrow> error + world" where
  "os_remove p w =
     (if os_path_isfile p w then Inr (w\<lparr>files := AList.delete p (files w)\<rparr>)
      else Inl (OSError p))"

text \<open>
  \<^verbatim>\<open>open(p, "w")\<close> followed by one \<^verbatim>\<open>write\<close>: the file is created or replaced.  It
  fails when \<open>p\<close> is a directory or the directory that is to hold it does not exist
  (an empty directory part is the current directory).
\<close>

definition write_file :: "string \<Rightarrow> string \<Rightarrow> world \<Rightarrow> error + world" where
  "write_file p content w =
     (if os_path_isdir p w then Inl (OSError p)
      else if os_path_dirname p = [] \<or> os_path_isdir (os_path_dirname p) w
      then Inr (w\<lparr>files := AList.update p content (files w)\<rparr>)
      else Inl (OSError p))"

definition print :: "string \<Rightarrow> world \<Rightarrow> world" where
  "print line w = w\<lparr>stdout := stdout w @ [line]\<rparr>"

text \<open>\<^verbatim>\<open>filename.replace(".txt", "")\<close>: every occurrence is removed, left to right.\<close>

fun replace_txt :: "string \<Rightarrow> string" where
  "replace_txt [] = []"
| "replace_txt (c # cs) =
     (if take 4 (c # cs) = ''.txt'' then replace_txt (drop 3 cs) else c # replace_txt cs)"

text \<open>\<^verbatim>\<open>sep.join(xs)\<close>.\<close>

fun str_join :: "string \<Rightarrow> string list \<Rightarrow> string" where
  "str_join sep [] = []"
| "str_join sep [x] = x"
| "str_join sep (x # y # ys) = x @ sep @ str_join sep (y # ys)"

text \<open>
  Two answers come from outside the program and are arguments of the functions below.
  A Python set is traversed in an order the language does not fix: \<open>set_iter\<close> maps
  the distinct members of a set to the sequence in which a \<^verbatim>\<open>for\<close> loop visits them.
  The pattern matching of \<^verbatim>\<open>glob.glob\<close> is library code: \<open>globbed\<close> is the list of
  paths that the one call \<^verbatim>\<open>glob.glob(os.path.join(folder, "*.txt"))\<close> returns, taken
  after \<^verbatim>\<open>os.makedirs\<close>.  It may name regular files and directories alike.
\<close>

definition py_set :: "(string list \<Rightarrow> string list) \<Rightarrow> string list \<Rightarrow> string list" where
  "py_set set_iter xs = set_iter (remdups xs)"

section \<open>Grouped export (gename.py)\<close>

text \<open>
  \<^verbatim>\<open>grouped.setdefault(k, []).append(name)\<close> on a dictionary kept in insertion order.
\<close>

definition setdefault_append ::
  "(string \<times> string list) list \<Rightarrow> string \<Rightarrow> string \<Rightarrow> (string \<times> string list) list" where
  "setdefault_append grouped k name =
     AList.update k ((case map_of grouped k of None \<Rightarrow> [] | Some l \<Rightarrow> l) @ [name]) grouped"

text \<open>
  The loop \<^verbatim>\<open>for name in self.run(): grouped.setdefault(name[0], []).append(name)\<close>,
  consuming a generator that yields \<open>names\<close> and then ends with \<open>r\<close>.
\<close>

fun group_names ::
  "string list \<Rightarrow> error option \<Rightarrow> (string \<times> string list) list
     \<Rightarrow> error + (string \<times> string list) list" where
  "group_names [] r grouped = (case r of None \<Rightarrow> Inr grouped | Some e \<Rightarrow> Inl e)"
| "group_names (name # names) r grouped =
     (case py_index name 0 of
        Inl e \<Rightarrow> Inl e
      | Inr c \<Rightarrow> group_names names r (setdefault_append grouped [c] name))"

definition allowed_letters :: "(string list \<Rightarrow> string list) \<Rightarrow> generator \<Rightarrow> string list" where
  "allowed_letters set_iter g =
     (if truthy (first g) then py_set set_iter [the (first g)]
      else py_set set_iter (map (\<lambda>c. [c]) (consonants g)))"

text \<open>
  Each loop over the filesystem returns the exception that stopped it, if any, with
  the world as it was left at that moment.
\<close>

fun delete_loop :: "string list \<Rightarrow> string list \<Rightarrow> world \<Rightarrow> error option \<times> world" where
  "delete_loop allowed [] w = (None, w)"
| "delete_loop allowed (file_path # rest) w =
     (let filename = os_path_basename file_path;
          letter = replace_txt filename
      in if letter \<notin> set allowed
         then (case os_remove file_path w of
                 Inl e \<Rightarrow> (Some e, w)
               | Inr w' \<Rightarrow> delete_loop allowed rest (print (''Deleted '' @ file_path) w'))
         else delete_loop allowed rest w)"

fun write_loop ::
  "string \<Rightarrow> (string \<times> string list) list \<Rightarrow> string list \<Rightarrow> world
     \<Rightarrow> error option \<times> world" where
  "write_loop folder grouped [] w = (None, w)"
| "write_loop folder grouped (letter # rest) w =
     (let file_path = os_path_join folder (letter @ ''.txt'');
          names = (case map_of grouped letter of None \<Rightarrow> [] | Some l \<Rightarrow> l)
      in case write_file file_path (str_join [CHR 0x0A] names) w of
           Inl e \<Rightarrow> (Some e, w)
         | Inr w' \<Rightarrow> write_loop folder grouped rest (print (''Wrote '' @ file_path) w'))"

definition export_complete_message :: "string \<Rightarrow> string" where
  "export_complete_message folder =
     [CHR 0x0A] @ ''Export complete '' @ [CHR 0xE2, CHR 0x86, CHR 0x92] @ '' '' @ folder @ ''/''"

text \<open>
  \<^verbatim>\<open>NameEngine.export_grouped\<close> of gename.py.  The function has no \<^verbatim>\<open>return\<close>
  statement, so a completed call returns \<^verbatim>\<open>None\<close>.
\<close>

definition export_grouped ::
  "(string list \<Rightarrow> string list) \<Rightarrow> string list \<Rightarrow> engine \<Rightarrow> string \<Rightarrow> world
     \<Rightarrow> (error + (string list \<times> nat) option) \<times> world" where
  "export_grouped set_iter globbed self folder w =
     (case os_makedirs folder w of
        Inl e \<Rightarrow> (Inl e, w)
      | Inr w1 \<Rightarrow>
          (case run self of
             (names, r) \<Rightarrow>
               (case group_names names r [] of
                  Inl e \<Rightarrow> (Inl e, w1)
                | Inr grouped \<Rightarrow>
                    (let allowed = allowed_letters set_iter (generator self)
                     in case delete_loop allowed globbed w1 of
                          (Some e, w2) \<Rightarrow> (Inl e, w2)
                        | (None, w2) \<Rightarrow>
                            (case write_loop folder grouped allowed w2 of
                               (Some e, w3) \<Rightarrow> (Inl e, w3)
                             | (None, w3) \<Rightarrow>
                                 (Inr None, print (export_complete_message folder) w3))))))"

text \<open>
  \<^verbatim>\<open>clear_output\<close> of gename.py, the command-line tool's other deletion loop.  Its
  \<^verbatim>\<open>allowed_letters\<close> argument is \<^verbatim>\<open>None\<close> or a set of strings; \<open>globbed\<close> is the
  answer of its \<^verbatim>\<open>glob.glob\<close> call.
\<close>

fun clear_loop :: "string list option \<Rightarrow> string list \<Rightarrow> world \<Rightarrow> error option \<times> world" where
  "clear_loop allowed [] w = (None, w)"
| "clear_loop allowed (file_path # rest) w =
     (let filename = os_path_basename file_path;
          name_without_ext = replace_txt filename
      in if length name_without_ext = 1
         then (if (case allowed of None \<Rightarrow> True | Some a \<Rightarrow> name_without_ext \<notin> set a)
               then (case os_remove file_path w of
                       Inl e \<Rightarrow> (Some e, w)
                     | Inr w' \<Rightarrow> clear_loop allowed rest (print (''Deleted '' @ file_path) w'))
               else clear_loop allowed rest w)
         else clear_loop allowed rest w)"

definition clear_output ::
  "string list \<Rightarrow> string \<Rightarrow> string list option \<Rightarrow> world \<Rightarrow> error option \<times> world" where
  "clear_output globbed folder allowed w =
     (if \<not> os_path_exists folder w then (None, print ''No output folder exists.'' w)
      else clear_loop allowed globbed w)"

section \<open>The copy embedded in the desktop interface (main.py)\<close>

text \<open>
  main.py carries its own \<^verbatim>\<open>CVCVGenerator\<close>, filter classes and \<^verbatim>\<open>NameEngine\<close>.
  They are embedded separately, from the text of main.py, under the suffix \<open>_gui\<close>.
\<close>

definition CVCVGenerator_init_gui ::
  "string option \<Rightarrow> string option \<Rightarrow> string option \<Rightarrow> string option \<Rightarrow> bool
     \<Rightarrow> string option \<Rightarrow> generator" where
  "CVCVGenerator_init_gui vowels_arg consonants_arg add_vowels add_consonants include_y first_arg =
     (let default_vowels = ''aeiou'';
          default_vowels = (if include_y then default_vowels @ ''y'' else default_vowels);
          base_vowels = (if truthy vowels_arg then the vowels_arg else default_vowels);
          base_vowels = (if truthy add_vowels then base_vowels @ the add_vowels
                         else base_vowels);
          self_vowels = sorted_set (lower base_vowels);
          base_consonants =
            (if truthy consonants_arg then the consonants_arg
             else filter (\<lambda>c. \<not> sublist [c] self_vowels) ascii_lowercase);
          base_consonants = (if truthy add_consonants then base_consonants @ the add_consonants
                             else base_consonants);
          self_consonants = sorted_set (lower base_consonants)
      in \<lparr> vowels = self_vowels,
           consonants = self_consonants,
           first = (if truthy first_arg then Some (lower (the first_arg)) else None) \<rparr>)"

fun generate_loop_gui :: "char list list \<Rightarrow> string gen" where
  "generate_loop_gui [] = ([], None)"
| "generate_loop_gui (t # ts) =
     (case t of
        [c1, v1, c2, v2] \<Rightarrow>
          (case generate_loop_gui ts of (ys, r) \<Rightarrow> (([c1] @ [v1] @ [c2] @ [v2]) # ys, r))
      | _ \<Rightarrow> ([], Some (ValueError ''wrong number of values to unpack'')))"

definition generate_gui :: "generator \<Rightarrow> string gen" where
  "generate_gui self =
     (if truthy (first self) then
        (if \<not> sublist (the (first self)) (consonants self)
         then ([], Some (ValueError (first_letter_message (the (first self)))))
         else generate_loop_gui
                (itertools_product
                   [the (first self), vowels self, consonants self, vowels self]))
      else generate_loop_gui
             (itertools_product
                [consonants self, vowels self, consonants self, vowels self]))"

fun apply_filter_gui :: "name_filter \<Rightarrow> string \<Rightarrow> error + bool" where
  "apply_filter_gui NoFilter n = Inr True"
| "apply_filter_gui OnlyRepeatingVowels n = index_eq n 1 3"
| "apply_filter_gui OnlyRepeatingConsonants n = index_eq n 0 2"
| "apply_filter_gui OnlyRepeatingBoth n =
     (case index_eq n 0 2 of
        Inl e \<Rightarrow> Inl e
      | Inr b \<Rightarrow> (if b then index_eq n 1 3 else Inr False))"

fun run_loop_gui ::
  "name_filter \<Rightarrow> string \<Rightarrow> string list \<Rightarrow> error option \<Rightarrow> string gen" where
  "run_loop_gui f suf [] r = ([], r)"
| "run_loop_gui f suf (name # names) r =
     (case apply_filter_gui f name of
        Inl e \<Rightarrow> ([], Some e)
      | Inr b \<Rightarrow>
          (case run_loop_gui f suf names r of
             (ys, r') \<Rightarrow> ((if b then [name @ suf] else []) @ ys, r')))"

definition run_gui :: "engine \<Rightarrow> string gen" where
  "run_gui self =
     (case generate_gui (generator self) of
        (names, r) \<Rightarrow> run_loop_gui (name_filter self) (suffix self) names r)"

fun delete_loop_gui :: "string list \<Rightarrow> string list \<Rightarrow> world \<Rightarrow> error option \<times> world" where
  "delete_loop_gui allowed [] w = (None, w)"
| "delete_loop_gui allowed (file_path # rest) w =
     (let letter = replace_txt (os_path_basename file_path)
      in if letter \<notin> set allowed
         then (case os_remove file_path w of
                 Inl e \<Rightarrow> (Some e, w)
               | Inr w' \<Rightarrow> delete_loop_gui allowed rest w')
         else delete_loop_gui allowed rest w)"

fun write_loop_gui ::
  "string \<Rightarrow> (string \<times> string list) list \<Rightarrow> string list \<Rightarrow> string list \<Rightarrow> world
     \<Rightarrow> error option \<times> string list \<times> world" where
  "write_loop_gui folder grouped [] written w = (None, written, w)"
| "write_loop_gui folder grouped (letter # rest) written w =
     (let file_path = os_path_join folder (letter @ ''.txt'');
          names = (case map_of grouped letter of None \<Rightarrow> [] | Some l \<Rightarrow> l)
      in case write_file file_path (str_join [CHR 0x0A] names) w of
           Inl e \<Rightarrow> (Some e, written, w)
         | Inr w' \<Rightarrow> write_loop_gui folder grouped rest (written @ [file_path]) w')"

text \<open>
  \<^verbatim>\<open>NameEngine.export_grouped\<close> of main.py: no printing, and the written paths are
  returned with \<^verbatim>\<open>sum(len(v) for v in grouped.values())\<close>.
\<close>

definition export_grouped_gui ::
  "(string list \<Rightarrow> string list) \<Rightarrow> string list \<Rightarrow> engine \<Rightarrow> string \<Rightarrow> world
     \<Rightarrow> (error + (string list \<times> nat) option) \<times> world" where
  "export_grouped_gui set_iter globbed self folder w =
     (case os_makedirs folder w of
        Inl e \<Rightarrow> (Inl e, w)
      | Inr w1 \<Rightarrow>
          (case run_gui self of
             (names, r) \<Rightarrow>
               (case group_names names r [] of
                  Inl e \<Rightarrow> (Inl e, w1)
                | Inr grouped \<Rightarrow>
                    (let allowed = allowed_letters set_iter (generator self)
                     in case delete_loop_gui allowed globbed w1 of
                          (Some e, w2) \<Rightarrow> (Inl e, w2)
                        | (None, w2) \<Rightarrow>
                            (case write_loop_gui folder grouped allowed [] w2 of
                               (Some e, written, w3) \<Rightarrow> (Inl e, w3)
                             | (None, written, w3) \<Rightarrow>
                                 (Inr (Some (written,
                                             sum_list (map (\<lambda>kv. length (snd kv)) grouped))),
                                  w3))))))"

section \<open>The specification's letter sets and filter predicates\<close>

text \<open>
  Lowercasing as the specification means it, by the table of the 26 ASCII capitals; every
  other character is left as it is.
\<close>

definition spec_lowercase :: "char \<Rightarrow> char" where
  "spec_lowercase c =
     (case map_of (zip ''ABCDEFGHIJKLMNOPQRSTUVWXYZ'' ''abcdefghijklmnopqrstuvwxyz'') c of
        Some l \<Rightarrow> l
      | None \<Rightarrow> c)"

text \<open>
  The letter set the specification describes for a base string: its characters
  lowercased, without duplicates, in ascending order.
\<close>

definition spec_letter_set :: "string \<Rightarrow> string" where
  "spec_letter_set s = sorted_list_of_set (spec_lowercase ` set s)"

text \<open>An argument counts as provided when it is a non-empty string.\<close>

definition spec_vowel_base :: "string option \<Rightarrow> string option \<Rightarrow> bool \<Rightarrow> string" where
  "spec_vowel_base explicit additional include_y =
     (case explicit of
        Some (c # cs) \<Rightarrow> c # cs
      | _ \<Rightarrow> ''aeiou'' @ (if include_y then ''y'' else []))
     @ (case additional of Some a \<Rightarrow> a | None \<Rightarrow> [])"

definition spec_consonant_base :: "string \<Rightarrow> string option \<Rightarrow> string option \<Rightarrow> string" where
  "spec_consonant_base vowel_set explicit additional =
     (case explicit of
        Some (c # cs) \<Rightarrow> c # cs
      | _ \<Rightarrow> filter (\<lambda>c. c \<notin> set vowel_set) ''abcdefghijklmnopqrstuvwxyz'')
     @ (case additional of Some a \<Rightarrow> a | None \<Rightarrow> [])"

text \<open>The four filter kinds of the specification, on a four-character core.\<close>

definition spec_accepts :: "string \<Rightarrow> string \<Rightarrow> bool" where
  "spec_accepts kind core =
     (if kind = ''none'' then True
      else if kind = ''repeat_vowels'' then core ! 1 = core ! 3
      else if kind = ''repeat_consonants'' then core ! 0 = core ! 2
      else if kind = ''repeat_both'' then core ! 0 = core ! 2 \<and> core ! 1 = core ! 3
      else False)"

section \<open>Auxiliary definitions used in the proofs\<close>

text \<open>The nested enumeration of all four-letter names over a first alphabet \<open>fl\<close>.\<close>

definition cvcv_names :: "string \<Rightarrow> string \<Rightarrow> string \<Rightarrow> string list" where
  "cvcv_names fl vs cs =
     concat (map (\<lambda>c1. concat (map (\<lambda>v1. concat (map (\<lambda>c2. map (\<lambda>v2. [c1, v1, c2, v2]) vs) cs)) vs)) fl)"

text \<open>The value a filter returns on a name long enough for its index reads.\<close>

fun accepts :: "name_filter \<Rightarrow> string \<Rightarrow> bool" where
  "accepts NoFilter n = True"
| "accepts OnlyRepeatingVowels n = (n ! 1 = n ! 3)"
| "accepts OnlyRepeatingConsonants n = (n ! 0 = n ! 2)"
| "accepts OnlyRepeatingBoth n = (n ! 0 = n ! 2 \<and> n ! 1 = n ! 3)"

text \<open>The alphabet of the first position: the pinned string, or all consonants.\<close>

definition first_letters :: "generator \<Rightarrow> string" where
  "first_letters g = (if truthy (first g) then the (first g) else consonants g)"

text \<open>
  The names stored under a letter, the path of a letter's file, and the file table after
  the write loop, as pure functions.
\<close>

definition names_for :: "(string \<times> string list) list \<Rightarrow> string \<Rightarrow> string list" where
  "names_for grouped letter = (case map_of grouped letter of None \<Rightarrow> [] | Some l \<Rightarrow> l)"

definition letter_path :: "string \<Rightarrow> string \<Rightarrow> string" where
  "letter_path folder letter = os_path_join folder (letter @ ''.txt'')"

definition written_files ::
  "string \<Rightarrow> (string \<times> string list) list \<Rightarrow> string list \<Rightarrow> (string \<times> string) list
     \<Rightarrow> (string \<times> string) list" where
  "written_files folder grouped letters fs =
     fold (\<lambda>l. AList.update (letter_path folder l) (str_join [CHR 0x0A] (names_for grouped l)))
       letters fs"

text \<open>The condition under which \<^verbatim>\<open>open(p, "w")\<close> succeeds.\<close>

definition can_write :: "string \<Rightarrow> world \<Rightarrow> bool" where
  "can_write p w =
     (\<not> os_path_isdir p w \<and> (os_path_dirname p = [] \<or> os_path_isdir (os_path_dirname p) w))"

section \<open>Generation and filtering\<close>

lemma concat_map_concat_map:
  "concat (map h (concat (map g xs))) = concat (map (\<lambda>a. concat (map h (g a))) xs)"
  by (induction xs) auto

lemma itertools_product4:
  "itertools_product [fl, vs, cs, ws] =
     concat (map (\<lambda>c1. concat (map (\<lambda>v1. concat (map (\<lambda>c2. map (\<lambda>v2. [c1, v1, c2, v2]) ws) cs)) vs)) fl)"
  by (simp add: itertools_product_def concat_map_concat_map o_def)

lemma cvcv_names_length4: "list_all (\<lambda>n. length n = 4) (cvcv_names fl vs cs)"
  by (auto simp: cvcv_names_def list_all_iff)

lemma generate_loop_length4:
  "list_all (\<lambda>t. length t = 4) ts \<Longrightarrow> generate_loop ts = (ts, None)"
proof (induction ts)
  case Nil
  then show ?case by simp
next
  case (Cons t ts)
  then obtain a b c d where "t = [a, b, c, d]"
    by (auto simp: length_Suc_conv numeral_eq_Suc)
  with Cons show ?case by simp
qed

lemma generate_unfold:
  "generate g =
     (if truthy (first g) then
        (if \<not> sublist (the (first g)) (consonants g)
         then ([], Some (ValueError (first_letter_message (the (first g)))))
         else (cvcv_names (the (first g)) (vowels g) (consonants g), None))
      else (cvcv_names (consonants g) (vowels g) (consonants g), None))"
  using cvcv_names_length4 [of "the (first g)" "vowels g" "consonants g"]
        cvcv_names_length4 [of "consonants g" "vowels g" "consonants g"]
  by (simp add: generate_def itertools_product4 generate_loop_length4 cvcv_names_def)

lemma generate_length4: "list_all (\<lambda>n. length n = 4) (fst (generate g))"
  by (simp add: generate_unfold cvcv_names_length4)

lemma apply_filter_length4: "length n = 4 \<Longrightarrow> apply_filter f n = Inr (accepts f n)"
  by (cases f) (simp_all add: index_eq_def py_index_def)

lemma run_loop_length4:
  "list_all (\<lambda>n. length n = 4) names \<Longrightarrow>
     run_loop f suf names r = (map (\<lambda>n. n @ suf) (filter (accepts f) names), r)"
  by (induction names) (simp_all add: apply_filter_length4)

lemma run_unfold:
  "run e = (map (\<lambda>n. n @ suffix e) (filter (accepts (name_filter e)) (fst (generate (generator e)))),
            snd (generate (generator e)))"
proof (cases "generate (generator e)")
  case (Pair names r)
  with generate_length4 [of "generator e"] show ?thesis
    by (simp add: run_def run_loop_length4)
qed

lemma get_filter_simps:
  "get_filter ''none'' = NoFilter"
  "get_filter ''repeat_vowels'' = OnlyRepeatingVowels"
  "get_filter ''repeat_consonants'' = OnlyRepeatingConsonants"
  "get_filter ''repeat_both'' = OnlyRepeatingBoth"
  by (simp_all add: get_filter_def filters_def)

lemma spec_accepts_simps:
  "spec_accepts ''none'' = accepts NoFilter"
  "spec_accepts ''repeat_vowels'' = accepts OnlyRepeatingVowels"
  "spec_accepts ''repeat_consonants'' = accepts OnlyRepeatingConsonants"
  "spec_accepts ''repeat_both'' = accepts OnlyRepeatingBoth"
  by (simp_all add: spec_accepts_def fun_eq_iff)

text \<open>
  Claim C1.  For every generator state and suffix, \<^verbatim>\<open>run\<close> yields exactly the
  generated cores that the selected filter kind accepts (none: all; repeat_vowels:
  character 1 equals character 3; repeat_consonants: character 0 equals character 2;
  repeat_both: both), each followed by the suffix, in the order in which
  \<^verbatim>\<open>generate\<close> yields them; it ends with the same outcome as \<^verbatim>\<open>generate\<close>.
  The predicate is evaluated on the core, which always has four characters.
\<close>

theorem run_yields_accepted_cores_suffixed:
  "run (NameEngine g (get_filter ''none'') suf) =
     (map (\<lambda>core. core @ suf) (filter (spec_accepts ''none'') (fst (generate g))),
      snd (generate g))
   \<and> run (NameEngine g (get_filter ''repeat_vowels'') suf) =
     (map (\<lambda>core. core @ suf) (filter (spec_accepts ''repeat_vowels'') (fst (generate g))),
      snd (generate g))
   \<and> run (NameEngine g (get_filter ''repeat_consonants'') suf) =
     (map (\<lambda>core. core @ suf) (filter (spec_accepts ''repeat_consonants'') (fst (generate g))),
      snd (generate g))
   \<and> run (NameEngine g (get_filter ''repeat_both'') suf) =
     (map (\<lambda>core. core @ suf) (filter (spec_accepts ''repeat_both'') (fst (generate g))),
      snd (generate g))
   \<and> list_all (\<lambda>core. length core = 4) (fst (generate g))"
  by (simp add: run_unfold NameEngine_def get_filter_simps spec_accepts_simps generate_length4)

text \<open>
  Claim C9.  For a filter kind outside the four known names, \<^verbatim>\<open>get_filter\<close>
  returns the accept-all filter, so the engine behaves as with kind \<^verbatim>\<open>none\<close>.
\<close>

theorem get_filter_unknown_kind:
  "kind \<notin> {''none'', ''repeat_vowels'', ''repeat_consonants'', ''repeat_both''} \<Longrightarrow>
     get_filter kind = NoFilter
     \<and> get_filter kind = get_filter ''none''
     \<and> run (NameEngine g (get_filter kind) suf) = run (NameEngine g (get_filter ''none'') suf)"
  by (simp add: get_filter_def filters_def)

theorem get_filter_unknown_kind_witness:
  "''bogus'' \<notin> {''none'', ''repeat_vowels'', ''repeat_consonants'', ''repeat_both''}
   \<and> get_filter ''bogus'' = NoFilter
   \<and> get_filter ''bogus'' = get_filter ''none''
   \<and> run (NameEngine \<lparr>vowels = ''a'', consonants = ''b'', first = None\<rparr> (get_filter ''bogus'') ''io'')
       = run (NameEngine \<lparr>vowels = ''a'', consonants = ''b'', first = None\<rparr> (get_filter ''none'') ''io'')"
  using get_filter_unknown_kind [of "''bogus''" "\<lparr>vowels = ''a'', consonants = ''b'', first = None\<rparr>" "''io''"]
  by (simp add: get_filter_def filters_def)

subsection \<open>The two copies of the core\<close>

lemma generate_loop_gui_eq: "generate_loop_gui ts = generate_loop ts"
  by (induction ts) (simp_all split: list.splits)

lemma apply_filter_gui_eq: "apply_filter_gui f n = apply_filter f n"
  by (cases f) simp_all

lemma run_loop_gui_eq: "run_loop_gui f suf names r = run_loop f suf names r"
  by (induction names) (simp_all add: apply_filter_gui_eq split: sum.splits)

lemma generate_gui_eq: "generate_gui g = generate g"
  by (simp add: generate_gui_def generate_def generate_loop_gui_eq)

lemma run_gui_eq: "run_gui e = run e"
  by (simp add: run_gui_def run_def generate_gui_eq run_loop_gui_eq)

text \<open>
  Claim C8.  The generator and engine embedded in main.py and those of gename.py build
  the same letter sets and yield the same sequences, for every configuration.
\<close>

theorem gui_core_equals_cli_core:
  "CVCVGenerator_init_gui v c av ac y f = CVCVGenerator_init v c av ac y f
   \<and> generate_gui (CVCVGenerator_init_gui v c av ac y f) = generate (CVCVGenerator_init v c av ac y f)
   \<and> run_gui (NameEngine (CVCVGenerator_init_gui v c av ac y f) flt suf)
       = run (NameEngine (CVCVGenerator_init v c av ac y f) flt suf)
   \<and> generate_gui g = generate g
   \<and> run_gui e = run e"
  by (simp add: CVCVGenerator_init_gui_def CVCVGenerator_init_def generate_gui_def generate_def
        generate_loop_gui_eq run_gui_def run_def run_loop_gui_eq)

subsection \<open>Counting and order of the enumeration\<close>

lemma length_concat_map_const:
  "(\<And>x. length (f x) = n) \<Longrightarrow> length (concat (map f xs)) = length xs * n"
  by (induction xs) simp_all

lemma nth_concat_map_const:
  "(\<And>x. length (f x) = n) \<Longrightarrow> i < length xs * n \<Longrightarrow>
     concat (map f xs) ! i = f (xs ! (i div n)) ! (i mod n)"
proof (induction xs arbitrary: i)
  case Nil
  then show ?case by simp
next
  case (Cons x xs)
  show ?case
  proof (cases "i < n")
    case True
    with Cons.prems(1) show ?thesis by (simp add: nth_append)
  next
    case False
    then have "n \<le> i" by simp
    then obtain j where j: "i = n + j" using le_Suc_ex by blast
    with Cons.prems have "j < length xs * n" by simp
    moreover from Cons.prems(2) have "0 < n" by (cases n) simp_all
    then have "(n + j) div n = Suc (j div n)" using div_add_self1 [of n j] by simp
    ultimately show ?thesis
      using Cons.IH [OF Cons.prems(1), of j] j Cons.prems(1) by (simp add: nth_append)
  qed
qed

lemma length_cvcv_names:
  "length (cvcv_names fl vs cs) = length fl * (length vs * (length cs * length vs))"
  unfolding cvcv_names_def
  by (simp add: length_concat_map_const [where n = "length vs * (length cs * length vs)"]
                length_concat_map_const [where n = "length cs * length vs"]
                length_concat_map_const [where n = "length vs"])

lemma sublist_single: "sublist [c] cs \<longleftrightarrow> c \<in> set cs"
  by (induction cs) (auto simp: sublist_Cons_right)

lemma lower_char_idem: "lower_char (lower_char c) = lower_char c"
  by (auto simp: lower_char_def less_eq_char_def)

lemma generate_first_letters:
  "snd (generate g) = None \<Longrightarrow>
     fst (generate g) = cvcv_names (first_letters g) (vowels g) (consonants g)"
  by (simp add: generate_unfold first_letters_def split: if_splits)

lemma generate_succeeds:
  "snd (generate g) = None \<longleftrightarrow> (truthy (first g) \<longrightarrow> sublist (the (first g)) (consonants g))"
  by (simp add: generate_unfold)

lemma sorted_set_props: "distinct (sorted_set s) \<and> sorted (sorted_set s)"
  by (simp add: sorted_set_def)

lemma init_default_b:
  "CVCVGenerator_init None None None None False (Some ''b'') =
     \<lparr>vowels = ''aeiou'', consonants = ''bcdfghjklmnpqrstvwxyz'', first = Some ''b''\<rparr>"
  by code_simp

lemma cvcv_names_hd: "list_all (\<lambda>n. hd n = c) (cvcv_names [c] vs cs)"
  by (auto simp: cvcv_names_def list_all_iff)

text \<open>
  Claim C2.  Without a pin, \<^verbatim>\<open>generate\<close> yields
  \<open>|consonants| * |vowels| * |consonants| * |vowels|\<close> names; with a pinned letter
  that is in the consonant set it yields \<open>1 * |vowels| * |consonants| * |vowels|\<close>.
  The letter sets built by the constructor have no duplicates, so the lengths are the
  sizes of the sets.  The default configuration pinned to \<^verbatim>\<open>b\<close> yields 525 names,
  all starting with \<^verbatim>\<open>b\<close>.
\<close>

theorem generate_count:
  "(\<not> truthy (first g) \<longrightarrow>
      snd (generate g) = None
      \<and> length (fst (generate g)) =
          length (consonants g) * length (vowels g) * length (consonants g) * length (vowels g))
   \<and> (first g = Some [c] \<and> c \<in> set (consonants g) \<longrightarrow>
      snd (generate g) = None
      \<and> length (fst (generate g)) = 1 * length (vowels g) * length (consonants g) * length (vowels g))
   \<and> distinct (vowels (CVCVGenerator_init v cs av ac y f))
   \<and> distinct (consonants (CVCVGenerator_init v cs av ac y f))
   \<and> snd (generate (CVCVGenerator_init None None None None False (Some ''b''))) = None
   \<and> length (fst (generate (CVCVGenerator_init None None None None False (Some ''b'')))) = 525
   \<and> list_all (\<lambda>name. hd name = CHR ''b'')
        (fst (generate (CVCVGenerator_init None None None None False (Some ''b''))))"
proof (intro conjI impI)
  assume "\<not> truthy (first g)"
  then show "snd (generate g) = None" by (simp add: generate_unfold)
  then show "length (fst (generate g)) =
          length (consonants g) * length (vowels g) * length (consonants g) * length (vowels g)"
    using \<open>\<not> truthy (first g)\<close>
    by (simp add: generate_first_letters first_letters_def length_cvcv_names)
next
  assume a: "first g = Some [c] \<and> c \<in> set (consonants g)"
  then show s: "snd (generate g) = None" by (simp add: generate_unfold sublist_single)
  show "length (fst (generate g)) = 1 * length (vowels g) * length (consonants g) * length (vowels g)"
    using a by (simp add: generate_first_letters [OF s] first_letters_def length_cvcv_names)
next
  show "distinct (vowels (CVCVGenerator_init v cs av ac y f))"
    by (simp add: CVCVGenerator_init_def Let_def sorted_set_props)
  show "distinct (consonants (CVCVGenerator_init v cs av ac y f))"
    by (simp add: CVCVGenerator_init_def Let_def sorted_set_props)
  show "snd (generate (CVCVGenerator_init None None None None False (Some ''b''))) = None"
    by (simp add: init_default_b generate_unfold sublist_single)
  show "length (fst (generate (CVCVGenerator_init None None None None False (Some ''b'')))) = 525"
    by (simp add: init_default_b generate_unfold sublist_single length_cvcv_names)
  show "list_all (\<lambda>name. hd name = CHR ''b'')
        (fst (generate (CVCVGenerator_init None None None None False (Some ''b''))))"
    by (simp add: init_default_b generate_unfold sublist_single cvcv_names_hd)
qed

theorem generate_count_witness:
  "\<not> truthy (first \<lparr>vowels = ''ae'', consonants = ''bcd'', first = None\<rparr>)
   \<and> length (fst (generate \<lparr>vowels = ''ae'', consonants = ''bcd'', first = None\<rparr>)) = 36
   \<and> first \<lparr>vowels = ''ae'', consonants = ''bcd'', first = Some ''c''\<rparr> = Some [CHR ''c'']
   \<and> CHR ''c'' \<in> set (consonants \<lparr>vowels = ''ae'', consonants = ''bcd'', first = Some ''c''\<rparr>)
   \<and> length (fst (generate \<lparr>vowels = ''ae'', consonants = ''bcd'', first = Some ''c''\<rparr>)) = 12"
  using generate_count [of "\<lparr>vowels = ''ae'', consonants = ''bcd'', first = None\<rparr>"]
        generate_count [of "\<lparr>vowels = ''ae'', consonants = ''bcd'', first = Some ''c''\<rparr>" "CHR ''c''"]
  by simp

lemma cvcv_names_comprehension:
  "cvcv_names fl vs cs = [ [c1, v1, c2, v2] . c1 \<leftarrow> fl, v1 \<leftarrow> vs, c2 \<leftarrow> cs, v2 \<leftarrow> vs]"
  by (simp add: cvcv_names_def concat_map_singleton)

lemma mod_mult_div: "(i mod (a * b)) div b = (i div b) mod (a::nat)"
proof (cases "b = 0")
  case True
  then show ?thesis by simp
next
  case False
  have "i mod (b * a) = b * (i div b mod a) + i mod b" by (rule mod_mult2_eq)
  with False show ?thesis by (simp add: mult.commute)
qed

lemma mod_mult_mod: "(i mod (a * b)) mod b = i mod (b::nat)"
  by (simp add: mod_mod_cancel)

lemma nth_cvcv_names:
  assumes "i < length (cvcv_names fl vs cs)"
  shows "cvcv_names fl vs cs ! i =
           [fl ! (i div (length vs * (length cs * length vs))),
            vs ! (i div (length cs * length vs) mod length vs),
            cs ! (i div length vs mod length cs),
            vs ! (i mod length vs)]"
proof -
  let ?nv = "length vs" and ?nc = "length cs"
  let ?H = "\<lambda>c1 v1 c2. map (\<lambda>v2. [c1, v1, c2, v2]) vs"
  let ?G = "\<lambda>c1 v1. concat (map (?H c1 v1) cs)"
  let ?F = "\<lambda>c1. concat (map (?G c1) vs)"
  have lH: "\<And>c1 v1 c2. length (?H c1 v1 c2) = ?nv" by simp
  have lG: "\<And>c1 v1. length (?G c1 v1) = ?nc * ?nv"
    by (simp add: length_concat_map_const [where n = "?nv"])
  have lF: "\<And>c1. length (?F c1) = ?nv * (?nc * ?nv)"
    by (simp add: length_concat_map_const [where n = "?nc * ?nv"] lG)
  from assms have i: "i < length fl * (?nv * (?nc * ?nv))" by (simp add: length_cvcv_names)
  then have pos: "0 < ?nv * (?nc * ?nv)" by (cases "?nv * (?nc * ?nv)") simp_all
  let ?j = "i mod (?nv * (?nc * ?nv))"
  let ?k = "?j mod (?nc * ?nv)"
  have j: "?j < length vs * (?nc * ?nv)" using pos by simp
  have k: "?k < length cs * ?nv" using pos by simp
  have l: "?k mod ?nv < ?nv" using pos by simp
  have "cvcv_names fl vs cs ! i = ?F (fl ! (i div (?nv * (?nc * ?nv)))) ! ?j"
    unfolding cvcv_names_def by (rule nth_concat_map_const [OF lF i])
  also have "\<dots> = ?G (fl ! (i div (?nv * (?nc * ?nv)))) (vs ! (?j div (?nc * ?nv))) ! ?k"
    by (rule nth_concat_map_const [OF lG j])
  also have "\<dots> = ?H (fl ! (i div (?nv * (?nc * ?nv)))) (vs ! (?j div (?nc * ?nv)))
                        (cs ! (?k div ?nv)) ! (?k mod ?nv)"
    by (rule nth_concat_map_const [OF lH k])
  also have "\<dots> = [fl ! (i div (?nv * (?nc * ?nv))), vs ! (?j div (?nc * ?nv)),
                     cs ! (?k div ?nv), vs ! (?k mod ?nv)]"
    using l by simp
  also have "?j div (?nc * ?nv) = i div (?nc * ?nv) mod ?nv" by (rule mod_mult_div)
  also have "?k mod ?nv = i mod ?nv" by (simp add: mod_mult_mod)
  also have "?k div ?nv = i div ?nv mod ?nc" by (simp add: mod_mult_div mod_mult_mod)
  finally show ?thesis .
qed

text \<open>
  Claim C3.  \<^verbatim>\<open>generate\<close> enumerates in nested-loop order: first-position
  alphabet outermost, then vowels, then consonants, then vowels, the last varying
  fastest; so the name at index \<open>i\<close> is read off the mixed-radix digits of \<open>i\<close>.
  With the default sets and the pin \<^verbatim>\<open>b\<close> the first three names are
  \<^verbatim>\<open>baba\<close>, \<^verbatim>\<open>babe\<close>, \<^verbatim>\<open>babi\<close>.
\<close>

theorem generate_order:
  "(snd (generate g) = None \<longrightarrow>
      fst (generate g) =
        [ [c1, v1, c2, v2] . c1 \<leftarrow> first_letters g, v1 \<leftarrow> vowels g, c2 \<leftarrow> consonants g,
                           v2 \<leftarrow> vowels g])
   \<and> (snd (generate g) = None \<and> i < length (fst (generate g)) \<longrightarrow>
      fst (generate g) ! i =
        [first_letters g ! (i div (length (vowels g) * (length (consonants g) * length (vowels g)))),
         vowels g ! (i div (length (consonants g) * length (vowels g)) mod length (vowels g)),
         consonants g ! (i div length (vowels g) mod length (consonants g)),
         vowels g ! (i mod length (vowels g))])
   \<and> take 3 (fst (generate (CVCVGenerator_init None None None None False (Some ''b''))))
       = [''baba'', ''babe'', ''babi'']"
proof (intro conjI impI)
  assume "snd (generate g) = None"
  then show "fst (generate g) =
        [ [c1, v1, c2, v2] . c1 \<leftarrow> first_letters g, v1 \<leftarrow> vowels g, c2 \<leftarrow> consonants g,
                           v2 \<leftarrow> vowels g]"
    by (simp only: generate_first_letters cvcv_names_comprehension)
next
  assume "snd (generate g) = None \<and> i < length (fst (generate g))"
  then have "snd (generate g) = None" and "i < length (fst (generate g))" by simp_all
  then show "fst (generate g) ! i =
        [first_letters g ! (i div (length (vowels g) * (length (consonants g) * length (vowels g)))),
         vowels g ! (i div (length (consonants g) * length (vowels g)) mod length (vowels g)),
         consonants g ! (i div length (vowels g) mod length (consonants g)),
         vowels g ! (i mod length (vowels g))]"
    by (simp add: generate_first_letters nth_cvcv_names)
next
  show "take 3 (fst (generate (CVCVGenerator_init None None None None False (Some ''b''))))
       = [''baba'', ''babe'', ''babi'']"
    by (simp add: init_default_b generate_unfold sublist_single cvcv_names_def)
qed

theorem generate_order_witness:
  "snd (generate \<lparr>vowels = ''ae'', consonants = ''bcd'', first = None\<rparr>) = None
   \<and> (7::nat) < length (fst (generate \<lparr>vowels = ''ae'', consonants = ''bcd'', first = None\<rparr>))
   \<and> fst (generate \<lparr>vowels = ''ae'', consonants = ''bcd'', first = None\<rparr>) ! 7 = ''bebe''
   \<and> take 5 (fst (generate \<lparr>vowels = ''ae'', consonants = ''bcd'', first = None\<rparr>))
       = [''baba'', ''babe'', ''baca'', ''bace'', ''bada'']"
  using generate_order [of "\<lparr>vowels = ''ae'', consonants = ''bcd'', first = None\<rparr>" 7]
  by (simp add: generate_unfold cvcv_names_def first_letters_def)

subsection \<open>Letter sets\<close>

text \<open>The arithmetic lowercasing of the embedding agrees with the table on every character.\<close>

lemma lower_char_table_all:
  "list_all (\<lambda>c. lower_char c = spec_lowercase c) (Enum.enum :: char list)"
  by code_simp

lemma lower_char_table: "lower_char c = spec_lowercase c"
proof -
  have "c \<in> set (Enum.enum :: char list)" by (simp add: enum_UNIV)
  with lower_char_table_all show ?thesis by (simp only: list_all_iff)
qed

lemma sorted_set_lower: "sorted_set (lower s) = spec_letter_set s"
proof -
  have "map lower_char s = map spec_lowercase s" by (simp add: lower_char_table)
  then show ?thesis
    by (simp only: sorted_set_def lower_def spec_letter_set_def image_set
                   sorted_list_of_set_sort_remdups)
qed

lemma truthy_append: "(if truthy a then b @ the a else b) = b @ (case a of Some x \<Rightarrow> x | None \<Rightarrow> [])"
  by (cases a) simp_all

text \<open>
  Claim C4.  The constructor's vowel set is the lowercased, duplicate-free, sorted
  characters of (the explicit vowels if provided, else \<^verbatim>\<open>aeiou\<close> plus \<^verbatim>\<open>y\<close>
  when the flag is set) followed by the additional vowels; its consonant set is the same
  normal form of (the explicit consonants if provided, else the ASCII lowercase letters
  not in the vowel set) followed by the additional consonants.  An argument is provided
  when it is a non-empty string; lowercasing is the table of the 26 ASCII capitals.
  Four instances: capitals and repeats in the vowels, in the consonants, the default
  sets with the flag, and empty explicit strings.
\<close>

theorem letter_set_builder:
  "vowels (CVCVGenerator_init v c av ac y f) = spec_letter_set (spec_vowel_base v av y)
   \<and> consonants (CVCVGenerator_init v c av ac y f) =
       spec_letter_set (spec_consonant_base (vowels (CVCVGenerator_init v c av ac y f)) c ac)
   \<and> vowels (CVCVGenerator_init (Some ''EaAe'') None (Some ''Y'') None False None) = ''aey''
   \<and> consonants (CVCVGenerator_init None (Some ''DbB'') None (Some ''Cd'') False None) = ''bcd''
   \<and> CVCVGenerator_init None None None None True None =
       \<lparr>vowels = ''aeiouy'', consonants = ''bcdfghjklmnpqrstvwxz'', first = None\<rparr>
   \<and> CVCVGenerator_init (Some []) (Some []) (Some ''U'') (Some ''Zz'') False (Some []) =
       \<lparr>vowels = ''aeiou'', consonants = ''bcdfghjklmnpqrstvwxyz'', first = None\<rparr>"
proof (intro conjI)
  show "vowels (CVCVGenerator_init (Some ''EaAe'') None (Some ''Y'') None False None) = ''aey''"
    by code_simp
  show "consonants (CVCVGenerator_init None (Some ''DbB'') None (Some ''Cd'') False None) = ''bcd''"
    by code_simp
  show "CVCVGenerator_init None None None None True None =
       \<lparr>vowels = ''aeiouy'', consonants = ''bcdfghjklmnpqrstvwxz'', first = None\<rparr>"
    by code_simp
  show "CVCVGenerator_init (Some []) (Some []) (Some ''U'') (Some ''Zz'') False (Some []) =
       \<lparr>vowels = ''aeiou'', consonants = ''bcdfghjklmnpqrstvwxyz'', first = None\<rparr>"
    by code_simp
next
  have vb: "(if truthy v then the v else (if y then ''aeiou'' @ ''y'' else ''aeiou''))
              = (case v of Some (x # xs) \<Rightarrow> x # xs | _ \<Rightarrow> ''aeiou'' @ (if y then ''y'' else []))"
    by (cases v) (simp_all split: list.splits)
  show "vowels (CVCVGenerator_init v c av ac y f) = spec_letter_set (spec_vowel_base v av y)"
    unfolding CVCVGenerator_init_def Let_def spec_vowel_base_def
    by (simp only: generator.simps truthy_append vb sorted_set_lower)
  have cb: "\<And>vs. (if truthy c then the c else filter (\<lambda>x. \<not> sublist [x] vs) ascii_lowercase)
              = (case c of Some (x # xs) \<Rightarrow> x # xs
                 | _ \<Rightarrow> filter (\<lambda>x. x \<notin> set vs) ''abcdefghijklmnopqrstuvwxyz'')"
    by (cases c) (simp_all add: sublist_single ascii_lowercase_def split: list.splits)
  show "consonants (CVCVGenerator_init v c av ac y f) =
       spec_letter_set (spec_consonant_base (vowels (CVCVGenerator_init v c av ac y f)) c ac)"
    unfolding CVCVGenerator_init_def Let_def spec_consonant_base_def
    by (simp only: generator.simps truthy_append cb sorted_set_lower)
qed

subsection \<open>The pinned first letter\<close>

lemma lower_idem: "lower (lower s) = lower s"
  by (simp add: lower_def lower_char_idem)

lemma lower_Nil_iff: "lower s = [] \<longleftrightarrow> s = []"
  by (simp add: lower_def)

lemma init_first: "first (CVCVGenerator_init v c av ac y f) = (if truthy f then Some (lower (the f)) else None)"
  by (simp add: CVCVGenerator_init_def Let_def)

lemma init_ignores_first:
  "vowels (CVCVGenerator_init v c av ac y f) = vowels (CVCVGenerator_init v c av ac y f')"
  "consonants (CVCVGenerator_init v c av ac y f) = consonants (CVCVGenerator_init v c av ac y f')"
  by (simp_all add: CVCVGenerator_init_def Let_def)

text \<open>
  Claim C10.  The constructor lowercases the pinned first letter, so pinning a string
  and pinning its lowercase form give the same generator and the same sequence; a
  letter whose lowercase form is in the consonant set is a valid pin.
\<close>

theorem first_letter_lowercased:
  "first (CVCVGenerator_init v c av ac y (Some (x # xs))) = Some (lower (x # xs))
   \<and> CVCVGenerator_init v c av ac y (Some fl) = CVCVGenerator_init v c av ac y (Some (lower fl))
   \<and> generate (CVCVGenerator_init v c av ac y (Some fl))
       = generate (CVCVGenerator_init v c av ac y (Some (lower fl)))
   \<and> (lower_char x \<in> set (consonants (CVCVGenerator_init v c av ac y None)) \<longrightarrow>
        snd (generate (CVCVGenerator_init v c av ac y (Some [x]))) = None
        \<and> generate (CVCVGenerator_init v c av ac y (Some [x]))
            = generate (CVCVGenerator_init v c av ac y (Some [lower_char x])))"
proof -
  have eq: "\<And>s. CVCVGenerator_init v c av ac y (Some s) = CVCVGenerator_init v c av ac y (Some (lower s))"
    by (simp add: CVCVGenerator_init_def Let_def lower_idem lower_Nil_iff)
  have "snd (generate (CVCVGenerator_init v c av ac y (Some [x]))) = None"
    if "lower_char x \<in> set (consonants (CVCVGenerator_init v c av ac y None))"
    using that init_ignores_first(2) [of v c av ac y "Some [x]" None]
    by (simp add: generate_succeeds init_first lower_def sublist_single)
  moreover have "generate (CVCVGenerator_init v c av ac y (Some [x]))
            = generate (CVCVGenerator_init v c av ac y (Some [lower_char x]))"
    using eq [of "[x]"] by (simp add: lower_def)
  ultimately show ?thesis using eq [of fl] by (simp add: init_first)
qed

theorem first_letter_lowercased_witness:
  "lower_char CHR ''B'' \<in> set (consonants (CVCVGenerator_init None None None None False None))
   \<and> snd (generate (CVCVGenerator_init None None None None False (Some ''B''))) = None
   \<and> generate (CVCVGenerator_init None None None None False (Some ''B''))
       = generate (CVCVGenerator_init None None None None False (Some ''b''))"
proof -
  have "CVCVGenerator_init None None None None False None =
     \<lparr>vowels = ''aeiou'', consonants = ''bcdfghjklmnpqrstvwxyz'', first = None\<rparr>"
    by code_simp
  moreover have l: "lower_char CHR ''B'' = CHR ''b''" by code_simp
  ultimately have h: "lower_char CHR ''B'' \<in> set (consonants (CVCVGenerator_init None None None None False None))"
    by simp
  from h first_letter_lowercased [of None None None None False "CHR ''B''" "[]" "''B''"]
  have "snd (generate (CVCVGenerator_init None None None None False (Some ''B''))) = None
        \<and> generate (CVCVGenerator_init None None None None False (Some ''B''))
            = generate (CVCVGenerator_init None None None None False (Some [lower_char CHR ''B'']))"
    by blast
  with h show ?thesis unfolding l by blast
qed

section \<open>Grouped export\<close>

subsection \<open>A pin outside the consonant set\<close>

lemma os_makedirs_frame:
  assumes "os_makedirs folder w = Inr w1"
  shows "files w1 = files w" and "stdout w1 = stdout w"
    and "dirs w1 = dirs w @ filter (\<lambda>d. \<not> os_path_isdir d w) (path_chain folder)"
  using assms by (auto simp: os_makedirs_def split: if_splits)

lemma os_makedirs_error: "os_makedirs folder w = Inl e \<Longrightarrow> e = OSError folder"
  by (auto simp: os_makedirs_def split: if_splits)

lemma export_grouped_invalid:
  assumes "run e = ([], Some err)"
  shows "export_grouped set_iter globbed e folder w =
           (case os_makedirs folder w of Inl x \<Rightarrow> (Inl x, w) | Inr w1 \<Rightarrow> (Inl err, w1))"
    and "export_grouped_gui set_iter globbed e folder w =
           (case os_makedirs folder w of Inl x \<Rightarrow> (Inl x, w) | Inr w1 \<Rightarrow> (Inl err, w1))"
  using assms by (simp_all add: export_grouped_def export_grouped_gui_def run_gui_eq split: sum.splits)

text \<open>
  Claim C5, as amended.  When the pinned first letter is not in the consonant set,
  \<^verbatim>\<open>generate\<close> raises the \<^verbatim>\<open>ValueError\<close> "First letter ... must exist in
  consonant set" (the specification's InvalidConfiguration) before yielding any name and
  \<^verbatim>\<open>run\<close> yields nothing.  Both copies of \<^verbatim>\<open>export_grouped\<close> call
  \<^verbatim>\<open>os.makedirs\<close> first: when that fails the export fails with its error and the
  world is unchanged; otherwise the export fails with the \<^verbatim>\<open>ValueError\<close>, having
  created the target folder and the missing directories above it.  In either case no
  file is written or deleted and nothing is printed.
\<close>

theorem invalid_first_letter_fails:
  assumes "first g = Some f" and "f \<noteq> []" and "\<not> sublist f (consonants g)"
  shows "generate g = ([], Some (ValueError (first_letter_message f)))
         \<and> run (NameEngine g flt suf) = ([], Some (ValueError (first_letter_message f)))
         \<and> export_grouped set_iter globbed (NameEngine g flt suf) folder w
             = (case os_makedirs folder w of
                  Inl e \<Rightarrow> (Inl e, w)
                | Inr w1 \<Rightarrow> (Inl (ValueError (first_letter_message f)), w1))
         \<and> export_grouped_gui set_iter globbed (NameEngine g flt suf) folder w
             = (case os_makedirs folder w of
                  Inl e \<Rightarrow> (Inl e, w)
                | Inr w1 \<Rightarrow> (Inl (ValueError (first_letter_message f)), w1))
         \<and> files (snd (export_grouped set_iter globbed (NameEngine g flt suf) folder w)) = files w
         \<and> stdout (snd (export_grouped set_iter globbed (NameEngine g flt suf) folder w)) = stdout w
         \<and> files (snd (export_grouped_gui set_iter globbed (NameEngine g flt suf) folder w)) = files w
         \<and> stdout (snd (export_grouped_gui set_iter globbed (NameEngine g flt suf) folder w)) = stdout w
         \<and> dirs (snd (export_grouped set_iter globbed (NameEngine g flt suf) folder w))
             = (case os_makedirs folder w of
                  Inl e \<Rightarrow> dirs w
                | Inr w1 \<Rightarrow> dirs w @ filter (\<lambda>d. \<not> os_path_isdir d w) (path_chain folder))"
proof -
  from assms have gen: "generate g = ([], Some (ValueError (first_letter_message f)))"
    by (simp add: generate_def)
  then have run: "run (NameEngine g flt suf) = ([], Some (ValueError (first_letter_message f)))"
    by (simp add: run_def NameEngine_def)
  show ?thesis
  proof (cases "os_makedirs folder w")
    case (Inl e)
    then show ?thesis by (simp add: gen run export_grouped_invalid [OF run])
  next
    case (Inr w1)
    then show ?thesis
      by (simp add: gen run export_grouped_invalid [OF run] os_makedirs_frame [OF Inr])
  qed
qed

theorem invalid_first_letter_fails_witness:
  "first \<lparr>vowels = ''ae'', consonants = ''bcd'', first = Some ''x''\<rparr> = Some ''x''
   \<and> ''x'' \<noteq> []
   \<and> \<not> sublist ''x'' (consonants \<lparr>vowels = ''ae'', consonants = ''bcd'', first = Some ''x''\<rparr>)
   \<and> generate \<lparr>vowels = ''ae'', consonants = ''bcd'', first = Some ''x''\<rparr>
       = ([], Some (ValueError (first_letter_message ''x'')))
   \<and> export_grouped id []
        (NameEngine \<lparr>vowels = ''ae'', consonants = ''bcd'', first = Some ''x''\<rparr> NoFilter ''io'')
        ''output'' \<lparr>dirs = [], files = [(''notes.txt'', ''n'')], stdout = []\<rparr>
       = (Inl (ValueError (first_letter_message ''x'')),
          \<lparr>dirs = [''output''], files = [(''notes.txt'', ''n'')], stdout = []\<rparr>)"
proof -
  let ?g = "\<lparr>vowels = ''ae'', consonants = ''bcd'', first = Some ''x''\<rparr>"
  let ?w = "\<lparr>dirs = [], files = [(''notes.txt'', ''n'')], stdout = []\<rparr>"
  have h: "\<not> sublist ''x'' (consonants ?g)" by (simp add: sublist_single)
  have m: "os_makedirs ''output'' ?w =
             Inr \<lparr>dirs = [''output''], files = [(''notes.txt'', ''n'')], stdout = []\<rparr>"
    by code_simp
  from invalid_first_letter_fails [of ?g "''x''" NoFilter "''io''" id "[]" "''output''" ?w] h
  show ?thesis by (simp add: m)
qed

text \<open>
  Claim C5 as stated fails: on a world without the folder \<^verbatim>\<open>output\<close> an export with a
  pin outside the consonant set leaves that folder behind, and on a world where
  \<^verbatim>\<open>output\<close> is a regular file it fails with the error of \<^verbatim>\<open>os.makedirs\<close>, not
  with the \<^verbatim>\<open>ValueError\<close>.
\<close>

theorem export_creates_folder_before_failing:
  "export_grouped id []
     (NameEngine (CVCVGenerator_init (Some ''ae'') (Some ''bcd'') None None False (Some ''x''))
        NoFilter [])
     ''output'' \<lparr>dirs = [], files = [], stdout = []\<rparr>
     = (Inl (ValueError (first_letter_message ''x'')),
        \<lparr>dirs = [''output''], files = [], stdout = []\<rparr>)
   \<and> export_grouped_gui id []
     (NameEngine (CVCVGenerator_init (Some ''ae'') (Some ''bcd'') None None False (Some ''x''))
        NoFilter [])
     ''output'' \<lparr>dirs = [], files = [], stdout = []\<rparr>
     = (Inl (ValueError (first_letter_message ''x'')),
        \<lparr>dirs = [''output''], files = [], stdout = []\<rparr>)
   \<and> \<lparr>dirs = [''output''], files = [], stdout = []\<rparr> \<noteq> \<lparr>dirs = [], files = [], stdout = []\<rparr>
   \<and> export_grouped id []
     (NameEngine (CVCVGenerator_init (Some ''ae'') (Some ''bcd'') None None False (Some ''x''))
        NoFilter [])
     ''output'' \<lparr>dirs = [], files = [(''output'', ''a regular file'')], stdout = []\<rparr>
     = (Inl (OSError ''output''),
        \<lparr>dirs = [], files = [(''output'', ''a regular file'')], stdout = []\<rparr>)"
  by code_simp

subsection \<open>Grouping, deleting and writing\<close>

lemma names_for_setdefault_append:
  "names_for (setdefault_append al k n) k' =
     (if k' = k then names_for al k @ [n] else names_for al k')"
  by (simp add: setdefault_append_def names_for_def update_conv')

lemma total_setdefault_append:
  "sum_list (map (\<lambda>kv. length (snd kv)) (setdefault_append al k n)) =
     Suc (sum_list (map (\<lambda>kv. length (snd kv)) al))"
  by (induction al) (auto simp: setdefault_append_def)

lemma group_names_nonempty:
  "list_all (\<lambda>n. n \<noteq> []) names \<Longrightarrow>
     \<exists>grouped. group_names names None acc = Inr grouped
       \<and> (\<forall>k. names_for grouped k = names_for acc k @ filter (\<lambda>n. [hd n] = k) names)
       \<and> sum_list (map (\<lambda>kv. length (snd kv)) grouped) =
           sum_list (map (\<lambda>kv. length (snd kv)) acc) + length names"
proof (induction names arbitrary: acc)
  case Nil
  then show ?case by simp
next
  case (Cons n names)
  then have n: "n \<noteq> []" and rest: "list_all (\<lambda>n. n \<noteq> []) names" by simp_all
  from n have idx: "py_index n 0 = Inr (hd n)" by (simp add: py_index_def hd_conv_nth)
  from Cons.IH [OF rest, of "setdefault_append acc [hd n] n"]
  obtain grouped where
    g: "group_names names None (setdefault_append acc [hd n] n) = Inr grouped"
    and l: "\<forall>k. names_for grouped k =
               names_for (setdefault_append acc [hd n] n) k @ filter (\<lambda>n. [hd n] = k) names"
    and t: "sum_list (map (\<lambda>kv. length (snd kv)) grouped) =
             sum_list (map (\<lambda>kv. length (snd kv)) (setdefault_append acc [hd n] n)) + length names"
    by blast
  have "group_names (n # names) None acc = Inr grouped" using g idx by simp
  moreover have "\<forall>k. names_for grouped k = names_for acc k @ filter (\<lambda>n. [hd n] = k) (n # names)"
    using l by (simp add: names_for_setdefault_append)
  moreover have "sum_list (map (\<lambda>kv. length (snd kv)) grouped) =
           sum_list (map (\<lambda>kv. length (snd kv)) acc) + length (n # names)"
    using t by (simp add: total_setdefault_append)
  ultimately show ?case by blast
qed


lemma written_files_other:
  "p \<notin> letter_path folder ` set letters \<Longrightarrow>
     map_of (written_files folder grouped letters fs) p = map_of fs p"
  by (induction letters arbitrary: fs) (auto simp: written_files_def update_conv')

lemma written_files_letter:
  "inj_on (letter_path folder) (set letters) \<Longrightarrow> l \<in> set letters \<Longrightarrow>
     map_of (written_files folder grouped letters fs) (letter_path folder l) =
       Some (str_join [CHR 0x0A] (names_for grouped l))"
proof (induction letters arbitrary: fs)
  case Nil
  then show ?case by simp
next
  case (Cons x letters)
  let ?fs = "AList.update (letter_path folder x) (str_join [CHR 0x0A] (names_for grouped x)) fs"
  have step: "written_files folder grouped (x # letters) fs = written_files folder grouped letters ?fs"
    by (simp add: written_files_def)
  from Cons.prems(1) have inj: "inj_on (letter_path folder) (set letters)"
    by (simp add: inj_on_def)
  show ?case
  proof (cases "l \<in> set letters")
    case True
    from Cons.IH [OF inj True] show ?thesis by (simp only: step)
  next
    case False
    with Cons.prems(2) have lx: "l = x" by simp
    from Cons.prems(1) False lx have "letter_path folder x \<notin> letter_path folder ` set letters"
      by (auto simp: inj_on_def)
    from written_files_other [OF this] show ?thesis
      by (simp add: step lx update_conv')
  qed
qed

lemma os_path_join_length:
  "\<not> prefix ''/'' b \<Longrightarrow> length (os_path_join a b) \<ge> length a + length b"
  by (simp add: os_path_join_def)

lemma os_path_join_abs: "prefix ''/'' b \<Longrightarrow> os_path_join a b = b"
  by (simp add: os_path_join_def)

lemma os_path_join_rel_inject:
  "\<not> prefix ''/'' b1 \<Longrightarrow> \<not> prefix ''/'' b2 \<Longrightarrow> os_path_join a b1 = os_path_join a b2 \<Longrightarrow> b1 = b2"
  by (simp add: os_path_join_def split: if_splits)

lemma os_path_join_mixed:
  assumes "prefix ''/'' b1" and "\<not> prefix ''/'' b2" and "length b1 = length b2"
  shows "os_path_join a b1 \<noteq> os_path_join a b2"
proof
  assume eq: "os_path_join a b1 = os_path_join a b2"
  then have "length b1 = length (os_path_join a b2)" using assms(1) by (simp add: os_path_join_abs)
  with os_path_join_length [OF assms(2), of a] assms(3) have "a = []" by simp
  then have "os_path_join a b2 = b2" using assms(2) by (simp add: os_path_join_def)
  with eq assms(1) have "b1 = b2" by (simp add: os_path_join_abs)
  with assms(1,2) show False by simp
qed

lemma letter_path_inject:
  assumes "length l1 = length l2" and "letter_path folder l1 = letter_path folder l2"
  shows "l1 = l2"
proof -
  let ?b1 = "l1 @ ''.txt''" and ?b2 = "l2 @ ''.txt''"
  have len: "length ?b1 = length ?b2" using assms(1) by simp
  from assms(2) have eq: "os_path_join folder ?b1 = os_path_join folder ?b2"
    by (simp only: letter_path_def)
  have "?b1 = ?b2"
  proof (cases "prefix ''/'' ?b1")
    case True
    note p1 = this
    show ?thesis
    proof (cases "prefix ''/'' ?b2")
      case True
      with p1 eq show ?thesis by (simp only: os_path_join_abs)
    next
      case False
      from os_path_join_mixed [OF p1 False len] eq show ?thesis by blast
    qed
  next
    case False
    note p1 = this
    show ?thesis
    proof (cases "prefix ''/'' ?b2")
      case True
      from os_path_join_mixed [OF True p1 len [symmetric] ] eq show ?thesis by metis
    next
      case False
      from os_path_join_rel_inject [OF p1 False eq] show ?thesis .
    qed
  qed
  then show ?thesis by simp
qed

lemma allowed_letters_set:
  assumes "\<forall>xs. distinct xs \<longrightarrow> distinct (set_iter xs) \<and> set (set_iter xs) = set xs"
  shows "set (allowed_letters set_iter g) =
           (if truthy (first g) then {the (first g)} else (\<lambda>c. [c]) ` set (consonants g))"
    and "distinct (allowed_letters set_iter g)"
  using assms by (simp_all add: allowed_letters_def py_set_def)

lemma allowed_letters_same_length:
  assumes "\<forall>xs. distinct xs \<longrightarrow> distinct (set_iter xs) \<and> set (set_iter xs) = set xs"
    and "l1 \<in> set (allowed_letters set_iter g)" and "l2 \<in> set (allowed_letters set_iter g)"
  shows "length l1 = length l2"
  using assms(2,3) unfolding allowed_letters_set(1) [OF assms(1)]
  by (auto split: if_splits)

lemma allowed_letters_inj:
  assumes "\<forall>xs. distinct xs \<longrightarrow> distinct (set_iter xs) \<and> set (set_iter xs) = set xs"
  shows "inj_on (letter_path folder) (set (allowed_letters set_iter g))"
  by (rule inj_onI) (blast intro: letter_path_inject allowed_letters_same_length [OF assms])

lemma run_names_nonempty: "list_all (\<lambda>n. n \<noteq> []) (fst (run e))"
proof -
  have "list_all (\<lambda>n. n \<noteq> []) (fst (generate (generator e)))"
    using generate_length4 [of "generator e"] by (auto simp: list_all_iff)
  then show ?thesis by (auto simp: run_unfold list_all_iff)
qed

lemma run_valid:
  "\<not> truthy (first (generator e)) \<or> sublist (the (first (generator e))) (consonants (generator e))
     \<Longrightarrow> snd (run e) = None"
  by (auto simp: run_unfold generate_unfold)


lemma can_write_dirs: "dirs w' = dirs w \<Longrightarrow> can_write p w' = can_write p w"
  by (simp add: can_write_def os_path_isdir_def)

lemma can_write_frame [simp]:
  "can_write p (print line w) = can_write p w"
  "can_write p (w\<lparr>files := fs\<rparr>) = can_write p w"
  by (simp_all add: can_write_def os_path_isdir_def print_def)

lemma write_file_ok:
  "can_write p w \<Longrightarrow> write_file p c w = Inr (w\<lparr>files := AList.update p c (files w)\<rparr>)"
  by (auto simp: can_write_def write_file_def)

lemma write_loop_ok:
  "\<forall>l\<in>set letters. can_write (letter_path folder l) w \<Longrightarrow>
     \<exists>w'. write_loop folder grouped letters w = (None, w')
        \<and> files w' = written_files folder grouped letters (files w)
        \<and> dirs w' = dirs w
        \<and> stdout w' = stdout w @ map (\<lambda>l. ''Wrote '' @ letter_path folder l) letters"
proof (induction letters arbitrary: w)
  case Nil
  then show ?case by (simp add: written_files_def)
next
  case (Cons x letters)
  let ?p = "letter_path folder x"
  let ?c = "str_join [CHR 0x0A] (names_for grouped x)"
  let ?w = "print (''Wrote '' @ ?p) (w\<lparr>files := AList.update ?p ?c (files w)\<rparr>)"
  from Cons.prems have wf: "write_file ?p ?c w = Inr (w\<lparr>files := AList.update ?p ?c (files w)\<rparr>)"
    by (simp add: write_file_ok)
  have d: "dirs ?w = dirs w" by (simp add: print_def)
  from Cons.prems have "\<forall>l\<in>set letters. can_write (letter_path folder l) ?w"
    by simp
  from Cons.IH [OF this] obtain w' where
    r: "write_loop folder grouped letters ?w = (None, w')"
    and f: "files w' = written_files folder grouped letters (files ?w)"
    and dd: "dirs w' = dirs ?w"
    and s: "stdout w' = stdout ?w @ map (\<lambda>l. ''Wrote '' @ letter_path folder l) letters"
    by blast
  have "write_loop folder grouped (x # letters) w = (None, w')"
    using wf r by (simp add: letter_path_def names_for_def Let_def)
  moreover have "files w' = written_files folder grouped (x # letters) (files w)"
    using f by (simp add: written_files_def print_def)
  moreover have "dirs w' = dirs w" using dd d by simp
  moreover have "stdout w' = stdout w @ map (\<lambda>l. ''Wrote '' @ letter_path folder l) (x # letters)"
    using s by (simp add: print_def)
  ultimately show ?case by blast
qed

lemma write_loop_gui_ok:
  "\<forall>l\<in>set letters. can_write (letter_path folder l) w \<Longrightarrow>
     \<exists>w'. write_loop_gui folder grouped letters written w =
              (None, written @ map (letter_path folder) letters, w')
        \<and> files w' = written_files folder grouped letters (files w)
        \<and> dirs w' = dirs w
        \<and> stdout w' = stdout w"
proof (induction letters arbitrary: w written)
  case Nil
  then show ?case by (simp add: written_files_def)
next
  case (Cons x letters)
  let ?p = "letter_path folder x"
  let ?c = "str_join [CHR 0x0A] (names_for grouped x)"
  let ?w = "w\<lparr>files := AList.update ?p ?c (files w)\<rparr>"
  from Cons.prems have wf: "write_file ?p ?c w = Inr ?w"
    by (simp add: write_file_ok)
  have d: "dirs ?w = dirs w" by simp
  from Cons.prems have "\<forall>l\<in>set letters. can_write (letter_path folder l) ?w"
    by simp
  from Cons.IH [OF this, of "written @ [?p]"] obtain w' where
    r: "write_loop_gui folder grouped letters (written @ [?p]) ?w =
          (None, (written @ [?p]) @ map (letter_path folder) letters, w')"
    and f: "files w' = written_files folder grouped letters (files ?w)"
    and dd: "dirs w' = dirs ?w"
    and s: "stdout w' = stdout ?w"
    by blast
  have "write_loop_gui folder grouped (x # letters) written w =
          (None, written @ map (letter_path folder) (x # letters), w')"
    using wf r by (simp add: letter_path_def names_for_def Let_def)
  moreover have "files w' = written_files folder grouped (x # letters) (files w)"
    using f by (simp add: written_files_def)
  moreover have "dirs w' = dirs w" using dd by simp
  moreover have "stdout w' = stdout w" using s by simp
  ultimately show ?case by blast
qed

lemma isfile_after_remove:
  "q \<noteq> p \<Longrightarrow> os_path_isfile q (w\<lparr>files := AList.delete p (files w)\<rparr>) = os_path_isfile q w"
  by (simp add: os_path_isfile_def delete_keys)

lemma delete_loop_ok:
  "distinct ps \<Longrightarrow>
   \<forall>p\<in>set ps. replace_txt (os_path_basename p) \<in> set allowed \<or> os_path_isfile p w \<Longrightarrow>
     \<exists>w'. delete_loop allowed ps w = (None, w') \<and> dirs w' = dirs w"
proof (induction ps arbitrary: w)
  case Nil
  then show ?case by simp
next
  case (Cons p ps)
  show ?case
  proof (cases "replace_txt (os_path_basename p) \<in> set allowed")
    case True
    with Cons.IH [of w] Cons.prems show ?thesis by (simp add: Let_def)
  next
    case False
    with Cons.prems have isf: "os_path_isfile p w" by simp
    let ?w = "print (''Deleted '' @ p) (w\<lparr>files := AList.delete p (files w)\<rparr>)"
    have "\<forall>q\<in>set ps. replace_txt (os_path_basename q) \<in> set allowed \<or> os_path_isfile q ?w"
    proof
      fix q assume q: "q \<in> set ps"
      with Cons.prems(1) have "q \<noteq> p" by auto
      then have "os_path_isfile q ?w = os_path_isfile q w"
        by (simp add: os_path_isfile_def delete_keys print_def)
      with Cons.prems(2) q
      show "replace_txt (os_path_basename q) \<in> set allowed \<or> os_path_isfile q ?w" by simp
    qed
    with Cons.IH [of ?w] Cons.prems(1) obtain w' where
      "delete_loop allowed ps ?w = (None, w')" and "dirs w' = dirs ?w" by auto
    with False isf show ?thesis by (simp add: Let_def os_remove_def print_def)
  qed
qed

lemma delete_loop_gui_ok:
  "distinct ps \<Longrightarrow>
   \<forall>p\<in>set ps. replace_txt (os_path_basename p) \<in> set allowed \<or> os_path_isfile p w \<Longrightarrow>
     \<exists>w'. delete_loop_gui allowed ps w = (None, w') \<and> dirs w' = dirs w"
proof (induction ps arbitrary: w)
  case Nil
  then show ?case by simp
next
  case (Cons p ps)
  show ?case
  proof (cases "replace_txt (os_path_basename p) \<in> set allowed")
    case True
    with Cons.IH [of w] Cons.prems show ?thesis by (simp add: Let_def)
  next
    case False
    with Cons.prems have isf: "os_path_isfile p w" by simp
    let ?w = "w\<lparr>files := AList.delete p (files w)\<rparr>"
    have "\<forall>q\<in>set ps. replace_txt (os_path_basename q) \<in> set allowed \<or> os_path_isfile q ?w"
    proof
      fix q assume q: "q \<in> set ps"
      with Cons.prems(1) have "q \<noteq> p" by auto
      then have "os_path_isfile q ?w = os_path_isfile q w" by (rule isfile_after_remove)
      with Cons.prems(2) q
      show "replace_txt (os_path_basename q) \<in> set allowed \<or> os_path_isfile q ?w" by simp
    qed
    with Cons.IH [of ?w] Cons.prems(1) obtain w' where
      "delete_loop_gui allowed ps ?w = (None, w')" and "dirs w' = dirs ?w" by auto
    with False isf show ?thesis by (simp add: Let_def os_remove_def)
  qed
qed

text \<open>
  After \<^verbatim>\<open>os.makedirs\<close> the folder is a directory, so the file of a letter without a
  slash has its parent directory.
\<close>

lemma rstrip_sep_last: "rstrip_sep p \<noteq> [] \<Longrightarrow> last (rstrip_sep p) \<noteq> CHR ''/''"
proof -
  assume a: "rstrip_sep p \<noteq> []"
  then have "dropWhile (\<lambda>c. c = CHR ''/'') (rev p) \<noteq> []" by (simp add: rstrip_sep_def)
  then have "hd (dropWhile (\<lambda>c. c = CHR ''/'') (rev p)) \<noteq> CHR ''/''"
    using hd_dropWhile [of "\<lambda>c. c = CHR ''/''" "rev p"] by simp
  with a show ?thesis by (simp add: rstrip_sep_def last_rev)
qed

lemma rstrip_sep_in_chain: "rstrip_sep p \<noteq> [] \<Longrightarrow> rstrip_sep p \<in> set (path_chain p)"
proof -
  assume a: "rstrip_sep p \<noteq> []"
  let ?q = "rstrip_sep p"
  from a have n: "Suc 0 \<le> length ?q" by (cases ?q) simp_all
  from rstrip_sep_last [OF a] a have "?q ! (length ?q - 1) \<noteq> CHR ''/''"
    by (simp add: last_conv_nth)
  with n have "length ?q \<in> set (filter (\<lambda>i. (i = length ?q \<or> ?q ! i = CHR ''/'') \<and> ?q ! (i - 1) \<noteq> CHR ''/'')
              [1..<Suc (length ?q)])" by auto
  then have "take (length ?q) ?q \<in> set (path_chain p)"
    unfolding path_chain_def Let_def set_map by (rule imageI)
  then show ?thesis by simp
qed

lemma rstrip_sep_idem: "rstrip_sep (rstrip_sep p) = rstrip_sep p"
proof (cases "rstrip_sep p = []")
  case True
  then show ?thesis by (simp add: rstrip_sep_def)
next
  case False
  let ?d = "dropWhile (\<lambda>c. c = CHR ''/'') (rev p)"
  from False have ne: "?d \<noteq> []" by (simp add: rstrip_sep_def)
  then have "hd ?d \<noteq> CHR ''/''" using hd_dropWhile [of "\<lambda>c. c = CHR ''/''" "rev p"] by simp
  with ne have "dropWhile (\<lambda>c. c = CHR ''/'') ?d = ?d" by (cases ?d) simp_all
  then show ?thesis by (simp add: rstrip_sep_def)
qed

lemma os_makedirs_isdir:
  assumes "os_makedirs folder w = Inr w1"
  shows "os_path_isdir folder w1"
proof -
  from assms have ne: "folder \<noteq> []" by (auto simp: os_makedirs_def split: if_splits)
  note d = os_makedirs_frame(3) [OF assms]
  show ?thesis
  proof (cases "rstrip_sep folder = []")
    case True
    with ne show ?thesis by (simp add: os_path_isdir_def)
  next
    case False
    note chain = rstrip_sep_in_chain [OF False]
    show ?thesis
    proof (cases "os_path_isdir (rstrip_sep folder) w")
      case True
      then have "rstrip_sep folder = ''.'' \<or> rstrip_sep folder = ''..''
                 \<or> rstrip_sep folder \<in> set (dirs w)"
        using False by (simp add: os_path_isdir_def rstrip_sep_idem)
      with ne d show ?thesis by (auto simp: os_path_isdir_def)
    next
      case False
      with chain d have "rstrip_sep folder \<in> set (dirs w1)" by simp
      with ne show ?thesis by (simp add: os_path_isdir_def)
    qed
  qed
qed

lemma isdir_rstrip: "rstrip_sep p \<noteq> [] \<Longrightarrow> os_path_isdir p w \<Longrightarrow> os_path_isdir (rstrip_sep p) w"
  by (simp add: os_path_isdir_def rstrip_sep_idem)

lemma dirname_join_plain:
  assumes "CHR ''/'' \<notin> set name" and "folder \<noteq> []"
  shows "os_path_dirname (os_path_join folder name) =
           (if rstrip_sep folder = [] then folder else rstrip_sep folder)"
proof -
  from assms(1) have np: "\<not> prefix ''/'' name" by (cases name) auto
  have dw: "dropWhile (\<lambda>c. c \<noteq> CHR ''/'') (rev name @ ys) = dropWhile (\<lambda>c. c \<noteq> CHR ''/'') ys" for ys
    using assms(1) by (intro dropWhile_append2) auto
  show ?thesis
  proof (cases "Sublist.suffix ''/'' folder")
    case True
    then obtain f where f: "folder = f @ ''/''" by (auto simp: Sublist.suffix_def)
    have "os_path_join folder name = folder @ name" using np True by (simp add: os_path_join_def)
    moreover have "rev (dropWhile (\<lambda>c. c \<noteq> CHR ''/'') (rev (folder @ name))) = folder"
      by (simp add: dw f)
    ultimately show ?thesis by (simp add: os_path_dirname_def Let_def)
  next
    case False
    with assms(2) have l: "last folder \<noteq> CHR ''/''"
      by (metis append_butlast_last_id Sublist.suffix_def)
    have j: "os_path_join folder name = folder @ ''/'' @ name"
      using np False assms(2) by (simp add: os_path_join_def)
    have h: "rev (dropWhile (\<lambda>c. c \<noteq> CHR ''/'') (rev (folder @ ''/'' @ name))) = folder @ ''/''"
      by (simp add: dw)
    from assms(2) obtain xs x where fx: "folder = xs @ [x]"
      by (cases folder rule: rev_cases) auto
    with l have "x \<noteq> CHR ''/''" by simp
    then have r: "rstrip_sep folder = folder" by (simp add: rstrip_sep_def fx)
    have r2: "rstrip_sep (folder @ ''/'') = rstrip_sep folder" by (simp add: rstrip_sep_def)
    show ?thesis unfolding j os_path_dirname_def h Let_def r2 r using assms(2) by simp
  qed
qed

lemma letter_file_parent_exists:
  assumes "os_makedirs folder w = Inr w1" and "CHR ''/'' \<notin> set l"
  shows "os_path_isdir (os_path_dirname (os_path_join folder (l @ ''.txt''))) w1"
proof -
  from assms(1) have ne: "folder \<noteq> []" by (auto simp: os_makedirs_def split: if_splits)
  from assms(2) have "CHR ''/'' \<notin> set (l @ ''.txt'')" by simp
  from dirname_join_plain [OF this ne] os_makedirs_isdir [OF assms(1)] isdir_rstrip [of folder w1]
  show ?thesis by (simp split: if_splits)
qed

subsection \<open>The exported files\<close>

text \<open>
  Claim C6, as amended.  Take a configuration with no pin or a valid pin, any order of
  set traversal, and a world in which the filesystem calls of the export succeed: the
  folder can be created, \<^verbatim>\<open>glob.glob\<close> returns distinct paths of which those to
  delete are regular files, and no \<^verbatim>\<open><letter>.txt\<close> is a directory or lacks its
  parent directory.  Then both copies of \<^verbatim>\<open>export_grouped\<close> leave, for each letter
  of the allowed-letter set (the pinned letter, else every consonant), a file
  \<^verbatim>\<open><letter>.txt\<close> holding the newline-joined names that start with that letter
  (empty when there is none).  The copy in main.py returns the written paths and the
  number of exported names; the copy in gename.py returns \<^verbatim>\<open>None\<close>.
\<close>

theorem export_grouped_writes_letter_files:
  assumes perm: "\<forall>xs. distinct xs \<longrightarrow> distinct (set_iter xs) \<and> set (set_iter xs) = set xs"
    and valid: "\<not> truthy (first (generator e))
                \<or> sublist (the (first (generator e))) (consonants (generator e))"
    and mk: "os_makedirs folder w = Inr w1"
    and dist: "distinct globbed"
    and rm: "\<forall>p\<in>set globbed.
               replace_txt (os_path_basename p) \<in> set (allowed_letters set_iter (generator e))
               \<or> os_path_isfile p w1"
    and wr: "\<forall>l\<in>set (allowed_letters set_iter (generator e)).
               \<not> os_path_isdir (os_path_join folder (l @ ''.txt'')) w1
               \<and> (os_path_dirname (os_path_join folder (l @ ''.txt'')) = []
                  \<or> os_path_isdir (os_path_dirname (os_path_join folder (l @ ''.txt''))) w1)"
  shows "fst (export_grouped_gui set_iter globbed e folder w) =
           Inr (Some (map (\<lambda>l. os_path_join folder (l @ ''.txt''))
                        (allowed_letters set_iter (generator e)),
                      length (fst (run_gui e))))
         \<and> fst (export_grouped set_iter globbed e folder w) = Inr None
         \<and> set (allowed_letters set_iter (generator e)) =
             (if truthy (first (generator e)) then {the (first (generator e))}
              else (\<lambda>c. [c]) ` set (consonants (generator e)))
         \<and> (\<forall>l \<in> set (allowed_letters set_iter (generator e)).
               map_of (files (snd (export_grouped_gui set_iter globbed e folder w)))
                      (os_path_join folder (l @ ''.txt''))
                 = Some (str_join [CHR 0x0A] (filter (\<lambda>n. [hd n] = l) (fst (run_gui e))))
               \<and> map_of (files (snd (export_grouped set_iter globbed e folder w)))
                        (os_path_join folder (l @ ''.txt''))
                 = Some (str_join [CHR 0x0A] (filter (\<lambda>n. [hd n] = l) (fst (run e)))))"
proof -
  let ?allowed = "allowed_letters set_iter (generator e)"
  obtain names where run: "run e = (names, None)"
    using run_valid [OF valid] by (cases "run e") simp
  from run_names_nonempty [of e] run have "list_all (\<lambda>n. n \<noteq> []) names" by simp
  from group_names_nonempty [OF this, of "[]"]
  obtain grouped where
    g: "group_names names None [] = Inr grouped"
    and l: "\<And>k. names_for grouped k = filter (\<lambda>n. [hd n] = k) names"
    and t: "sum_list (map (\<lambda>kv. length (snd kv)) grouped) = length names"
    by (auto simp: names_for_def)
  have lp: "(\<lambda>l. os_path_join folder (l @ ''.txt'')) = letter_path folder"
    by (simp add: fun_eq_iff letter_path_def)
  from wr have cw: "\<forall>l\<in>set ?allowed. can_write (letter_path folder l) w1"
    by (simp add: can_write_def letter_path_def)
  \<comment> \<open>the copy in gename.py\<close>
  from delete_loop_ok [OF dist rm] obtain w2 where
    d: "delete_loop ?allowed globbed w1 = (None, w2)" and dd: "dirs w2 = dirs w1" by blast
  from cw have "\<forall>l\<in>set ?allowed. can_write (letter_path folder l) w2"
    by (simp add: can_write_dirs [OF dd])
  from write_loop_ok [OF this, of grouped] obtain w3 where
    wl: "write_loop folder grouped ?allowed w2 = (None, w3)"
    and f3: "files w3 = written_files folder grouped ?allowed (files w2)" by blast
  have cli: "export_grouped set_iter globbed e folder w =
               (Inr None, print (export_complete_message folder) w3)"
    by (simp add: export_grouped_def mk run g d wl)
  \<comment> \<open>the copy in main.py\<close>
  from delete_loop_gui_ok [OF dist rm] obtain v2 where
    dg: "delete_loop_gui ?allowed globbed w1 = (None, v2)" and ddg: "dirs v2 = dirs w1" by blast
  from cw have "\<forall>l\<in>set ?allowed. can_write (letter_path folder l) v2"
    by (simp add: can_write_dirs [OF ddg])
  from write_loop_gui_ok [OF this, of grouped "[]"] obtain v3 where
    wlg: "write_loop_gui folder grouped ?allowed [] v2 =
            (None, map (letter_path folder) ?allowed, v3)"
    and fg3: "files v3 = written_files folder grouped ?allowed (files v2)" by auto
  have gui: "export_grouped_gui set_iter globbed e folder w =
               (Inr (Some (map (letter_path folder) ?allowed, length names)), v3)"
    by (simp add: export_grouped_gui_def mk run_gui_eq run g dg wlg t)
  note inj = allowed_letters_inj [OF perm, of folder "generator e"]
  have content: "map_of (written_files folder grouped ?allowed fs) (letter_path folder l) =
                   Some (str_join [CHR 0x0A] (filter (\<lambda>n. [hd n] = l) names))"
    if "l \<in> set ?allowed" for l fs
    using written_files_letter [OF inj that, of grouped fs] by (simp only: l)
  have c1: "fst (export_grouped_gui set_iter globbed e folder w) =
           Inr (Some (map (\<lambda>l. os_path_join folder (l @ ''.txt'')) ?allowed,
                      length (fst (run_gui e))))"
    by (simp add: gui lp run_gui_eq run)
  have c2: "fst (export_grouped set_iter globbed e folder w) = Inr None"
    by (simp add: cli)
  have c3: "set ?allowed =
             (if truthy (first (generator e)) then {the (first (generator e))}
              else (\<lambda>c. [c]) ` set (consonants (generator e)))"
    by (rule allowed_letters_set(1) [OF perm])
  have c4: "map_of (files (snd (export_grouped_gui set_iter globbed e folder w)))
                      (os_path_join folder (l @ ''.txt''))
                 = Some (str_join [CHR 0x0A] (filter (\<lambda>n. [hd n] = l) (fst (run_gui e))))"
    if "l \<in> set ?allowed" for l
    using content [OF that] by (simp add: gui fg3 run_gui_eq run letter_path_def)
  have c5: "map_of (files (snd (export_grouped set_iter globbed e folder w)))
                        (os_path_join folder (l @ ''.txt''))
                 = Some (str_join [CHR 0x0A] (filter (\<lambda>n. [hd n] = l) (fst (run e))))"
    if "l \<in> set ?allowed" for l
    using content [OF that] by (simp add: cli f3 run letter_path_def print_def)
  from c1 c2 c3 c4 c5 show ?thesis by blast
qed

theorem export_grouped_writes_letter_files_witness:
  "\<not> truthy (first (generator (NameEngine \<lparr>vowels = ''ae'', consonants = ''bc'', first = None\<rparr>
                                      OnlyRepeatingBoth ''io'')))
   \<and> os_makedirs ''out''
        \<lparr>dirs = [''out'', ''out/sub''], files = [(''out/x.txt'', ''xaxa''), (''out/readme.md'', ''r'')],
          stdout = []\<rparr>
       = Inr \<lparr>dirs = [''out'', ''out/sub''], files = [(''out/x.txt'', ''xaxa''), (''out/readme.md'', ''r'')],
          stdout = []\<rparr>
   \<and> distinct [''out/x.txt'']
   \<and> os_path_isfile ''out/x.txt''
        \<lparr>dirs = [''out'', ''out/sub''], files = [(''out/x.txt'', ''xaxa''), (''out/readme.md'', ''r'')],
          stdout = []\<rparr>
   \<and> fst (export_grouped_gui id [''out/x.txt'']
            (NameEngine \<lparr>vowels = ''ae'', consonants = ''bc'', first = None\<rparr> OnlyRepeatingBoth ''io'')
            ''out''
            \<lparr>dirs = [''out'', ''out/sub''], files = [(''out/x.txt'', ''xaxa''), (''out/readme.md'', ''r'')],
          stdout = []\<rparr>)
       = Inr (Some ([''out/b.txt'', ''out/c.txt''], 4))
   \<and> map_of (files (snd (export_grouped id [''out/x.txt'']
            (NameEngine \<lparr>vowels = ''ae'', consonants = ''bc'', first = None\<rparr> OnlyRepeatingBoth ''io'')
            ''out''
            \<lparr>dirs = [''out'', ''out/sub''], files = [(''out/x.txt'', ''xaxa''), (''out/readme.md'', ''r'')],
          stdout = []\<rparr>)))
        ''out/c.txt''
       = Some (''cacaio'' @ [CHR 0x0A] @ ''ceceio'')"
proof -
  let ?e = "NameEngine \<lparr>vowels = ''ae'', consonants = ''bc'', first = None\<rparr> OnlyRepeatingBoth ''io''"
  let ?w = "\<lparr>dirs = [''out'', ''out/sub''], files = [(''out/x.txt'', ''xaxa''), (''out/readme.md'', ''r'')],
          stdout = []\<rparr>"
  have p: "\<forall>xs::string list. distinct xs \<longrightarrow> distinct (id xs) \<and> set (id xs) = set xs" by simp
  have v': "\<not> truthy (first (generator ?e))" by (simp add: NameEngine_def)
  then have v: "\<not> truthy (first (generator ?e))
           \<or> sublist (the (first (generator ?e))) (consonants (generator ?e))" by blast
  have mk: "os_makedirs ''out'' ?w = Inr ?w" by code_simp
  have dist: "distinct [''out/x.txt'']" by simp
  have isf: "os_path_isfile ''out/x.txt'' ?w" by (simp add: os_path_isfile_def)
  have a: "allowed_letters id (generator ?e) = [''b'', ''c'']"
    by (simp add: allowed_letters_def py_set_def NameEngine_def)
  have rm: "\<forall>p\<in>set [''out/x.txt''].
               replace_txt (os_path_basename p) \<in> set (allowed_letters id (generator ?e))
               \<or> os_path_isfile p ?w"
    using isf by simp
  have j: "os_path_join ''out'' ''b.txt'' = ''out/b.txt''" "os_path_join ''out'' ''c.txt'' = ''out/c.txt''"
    by (simp_all add: os_path_join_def suffix_to_prefix)
  have wb: "\<not> os_path_isdir ''out/b.txt'' ?w \<and> os_path_isdir (os_path_dirname ''out/b.txt'') ?w"
    by code_simp
  have wc: "\<not> os_path_isdir ''out/c.txt'' ?w \<and> os_path_isdir (os_path_dirname ''out/c.txt'') ?w"
    by code_simp
  have wr: "\<forall>l\<in>set (allowed_letters id (generator ?e)).
               \<not> os_path_isdir (os_path_join ''out'' (l @ ''.txt'')) ?w
               \<and> (os_path_dirname (os_path_join ''out'' (l @ ''.txt'')) = []
                  \<or> os_path_isdir (os_path_dirname (os_path_join ''out'' (l @ ''.txt''))) ?w)"
    using wb wc by (simp only: a) (simp add: j)
  have r: "fst (run_gui ?e) = [''babaio'', ''bebeio'', ''cacaio'', ''ceceio'']"
    by (simp add: run_gui_eq run_unfold generate_unfold cvcv_names_def NameEngine_def)
  have r': "fst (run ?e) = [''babaio'', ''bebeio'', ''cacaio'', ''ceceio'']"
    by (simp add: run_unfold generate_unfold cvcv_names_def NameEngine_def)
  note t = export_grouped_writes_letter_files [of id ?e "''out''" ?w ?w "[''out/x.txt'']",
             OF p v mk dist rm wr]
  from t have "fst (export_grouped_gui id [''out/x.txt''] ?e ''out'' ?w) =
           Inr (Some (map (\<lambda>l. os_path_join ''out'' (l @ ''.txt''))
                        (allowed_letters id (generator ?e)),
                      length (fst (run_gui ?e))))"
    by blast
  then have g1: "fst (export_grouped_gui id [''out/x.txt''] ?e ''out'' ?w)
                   = Inr (Some ([''out/b.txt'', ''out/c.txt''], 4))"
    by (simp only: a r j list.map append.simps list.size) simp
  have "''c'' \<in> set (allowed_letters id (generator ?e))" by (simp only: a) simp
  with t have "map_of (files (snd (export_grouped id [''out/x.txt''] ?e ''out'' ?w)))
                        (os_path_join ''out'' (''c'' @ ''.txt''))
                 = Some (str_join [CHR 0x0A] (filter (\<lambda>n. [hd n] = ''c'') (fst (run ?e))))"
    by blast
  then have g2: "map_of (files (snd (export_grouped id [''out/x.txt''] ?e ''out'' ?w))) ''out/c.txt''
       = Some (''cacaio'' @ [CHR 0x0A] @ ''ceceio'')"
    by (simp only: r' j append.simps) simp
  from v' mk dist isf g1 g2 show ?thesis by blast
qed

text \<open>
  Claim C6 as stated fails in two ways.  The copy in gename.py returns \<^verbatim>\<open>None\<close>, not
  the written paths and the count, which main.py's copy returns on the same input.  And
  when the folder holds a directory \<^verbatim>\<open>q.txt\<close>, \<^verbatim>\<open>os.remove\<close> fails on it and
  neither copy writes any file.
\<close>

theorem export_grouped_cli_returns_none:
  "fst (export_grouped id []
          (NameEngine (CVCVGenerator_init (Some ''a'') (Some ''b'') None None False None) NoFilter [])
          ''output'' \<lparr>dirs = [], files = [], stdout = []\<rparr>)
     = Inr None
   \<and> fst (export_grouped id []
          (NameEngine (CVCVGenerator_init (Some ''a'') (Some ''b'') None None False None) NoFilter [])
          ''output'' \<lparr>dirs = [], files = [], stdout = []\<rparr>)
     \<noteq> Inr (Some ([''output/b.txt''], 1))
   \<and> fst (export_grouped_gui id []
          (NameEngine (CVCVGenerator_init (Some ''a'') (Some ''b'') None None False None) NoFilter [])
          ''output'' \<lparr>dirs = [], files = [], stdout = []\<rparr>)
     = Inr (Some ([''output/b.txt''], 1))
   \<and> export_grouped id [''output/q.txt'']
          (NameEngine (CVCVGenerator_init (Some ''a'') (Some ''b'') None None False None) NoFilter [])
          ''output'' \<lparr>dirs = [''output'', ''output/q.txt''], files = [], stdout = []\<rparr>
     = (Inl (OSError ''output/q.txt''),
        \<lparr>dirs = [''output'', ''output/q.txt''], files = [], stdout = []\<rparr>)
   \<and> export_grouped_gui id [''output/q.txt'']
          (NameEngine (CVCVGenerator_init (Some ''a'') (Some ''b'') None None False None) NoFilter [])
          ''output'' \<lparr>dirs = [''output'', ''output/q.txt''], files = [], stdout = []\<rparr>
     = (Inl (OSError ''output/q.txt''),
        \<lparr>dirs = [''output'', ''output/q.txt''], files = [], stdout = []\<rparr>)"
  by code_simp

text \<open>
  Claim C7.  The claim says that a pre-existing \<^verbatim>\<open>.txt\<close> file whose base name is
  longer than one character is left alone.  On a folder \<^verbatim>\<open>output\<close> that holds
  \<^verbatim>\<open>notes.txt\<close> and \<^verbatim>\<open>x.txt\<close> (the two paths \<^verbatim>\<open>glob.glob\<close> returns), both
  copies of \<^verbatim>\<open>export_grouped\<close> delete \<^verbatim>\<open>output/notes.txt\<close>, because their deletion
  loop does not test the length of the base name; \<^verbatim>\<open>clear_output\<close>, which has that
  test, keeps the file.
\<close>

theorem export_grouped_deletes_longer_txt_names:
  "export_grouped id [''output/notes.txt'', ''output/x.txt'']
       (NameEngine (CVCVGenerator_init (Some ''a'') (Some ''b'') None None False None) NoFilter [])
       ''output''
       \<lparr>dirs = [''output''],
        files = [(''output/notes.txt'', ''keep me''), (''output/x.txt'', ''xaxa'')],
        stdout = []\<rparr>
     = (Inr None,
        \<lparr>dirs = [''output''],
         files = [(''output/b.txt'', ''baba'')],
         stdout = [''Deleted output/notes.txt'', ''Deleted output/x.txt'', ''Wrote output/b.txt'',
                   export_complete_message ''output'']\<rparr>)
   \<and> map_of (files (snd (export_grouped id [''output/notes.txt'', ''output/x.txt'']
       (NameEngine (CVCVGenerator_init (Some ''a'') (Some ''b'') None None False None) NoFilter [])
       ''output''
       \<lparr>dirs = [''output''],
        files = [(''output/notes.txt'', ''keep me''), (''output/x.txt'', ''xaxa'')],
        stdout = []\<rparr>))) ''output/notes.txt'' = None
   \<and> map_of (files (snd (export_grouped_gui id [''output/notes.txt'', ''output/x.txt'']
       (NameEngine (CVCVGenerator_init (Some ''a'') (Some ''b'') None None False None) NoFilter [])
       ''output''
       \<lparr>dirs = [''output''],
        files = [(''output/notes.txt'', ''keep me''), (''output/x.txt'', ''xaxa'')],
        stdout = []\<rparr>))) ''output/notes.txt'' = None
   \<and> files (snd (clear_output [''output/notes.txt'', ''output/x.txt''] ''output'' (Some [''b''])
       \<lparr>dirs = [''output''],
        files = [(''output/notes.txt'', ''keep me''), (''output/x.txt'', ''xaxa'')],
        stdout = []\<rparr>)) = [(''output/notes.txt'', ''keep me'')]"
  by code_simp

end
